theory Spec2Isabelle
  imports Complex_Main
begin

section \<open>JavaScript numbers\<close>

text \<open>
  A JavaScript Number is an IEEE 754 binary64 value. It is modelled as \<open>NaN\<close>, one of the
  two infinities, or a finite value \<open>Fin x\<close> whose \<open>x\<close> is the real number the double
  denotes. Every arithmetic operation computes the exact real result and rounds it with
  \<open>rnd64\<close> (round to nearest, ties to even, 53 bits of precision, exponents from
  \<open>-1022\<close> to \<open>1023\<close>, gradual underflow, overflow to an infinity). The sign of zero is
  not modelled: the program never divides by a computed zero.
\<close>

datatype jsnum = NaN | PInf | NInf | Fin real

definition round_half_even :: "real \<Rightarrow> int" where
  "round_half_even x =
     (let f = \<lfloor>x\<rfloor>; d = x - of_int f
      in if d < 1 / 2 then f else if 1 / 2 < d then f + 1 else if even f then f else f + 1)"

definition rnd64 :: "real \<Rightarrow> jsnum" where
  "rnd64 x =
     (if x = 0 then Fin 0
      else let k = max \<lfloor>log 2 \<bar>x\<bar>\<rfloor> (- 1022);
               y = of_int (round_half_even (x / 2 powi (k - 52))) * 2 powi (k - 52)
           in if 2 powi 1024 \<le> \<bar>y\<bar> then (if 0 < x then PInf else NInf) else Fin y)"

text \<open>A decimal literal of the source denotes the double nearest to it.\<close>

definition lit :: "real \<Rightarrow> jsnum" where
  "lit x = rnd64 x"

fun js_mul :: "jsnum \<Rightarrow> jsnum \<Rightarrow> jsnum" where
  "js_mul NaN b = NaN"
| "js_mul a NaN = NaN"
| "js_mul (Fin x) (Fin y) = rnd64 (x * y)"
| "js_mul (Fin x) PInf = (if x = 0 then NaN else if 0 < x then PInf else NInf)"
| "js_mul (Fin x) NInf = (if x = 0 then NaN else if 0 < x then NInf else PInf)"
| "js_mul PInf (Fin y) = (if y = 0 then NaN else if 0 < y then PInf else NInf)"
| "js_mul NInf (Fin y) = (if y = 0 then NaN else if 0 < y then NInf else PInf)"
| "js_mul PInf PInf = PInf"
| "js_mul PInf NInf = NInf"
| "js_mul NInf PInf = NInf"
| "js_mul NInf NInf = PInf"

fun js_add :: "jsnum \<Rightarrow> jsnum \<Rightarrow> jsnum" where
  "js_add NaN b = NaN"
| "js_add a NaN = NaN"
| "js_add (Fin x) (Fin y) = rnd64 (x + y)"
| "js_add (Fin x) b = b"
| "js_add a (Fin y) = a"
| "js_add PInf PInf = PInf"
| "js_add NInf NInf = NInf"
| "js_add PInf NInf = NaN"
| "js_add NInf PInf = NaN"

text \<open>Division; a zero divisor is taken to be \<open>+0\<close>.\<close>

fun js_div :: "jsnum \<Rightarrow> jsnum \<Rightarrow> jsnum" where
  "js_div NaN b = NaN"
| "js_div a NaN = NaN"
| "js_div (Fin x) (Fin y) =
     (if y = 0 then (if x = 0 then NaN else if 0 < x then PInf else NInf)
      else rnd64 (x / y))"
| "js_div (Fin x) b = Fin 0"
| "js_div PInf (Fin y) = (if 0 \<le> y then PInf else NInf)"
| "js_div NInf (Fin y) = (if 0 \<le> y then NInf else PInf)"
| "js_div a b = NaN"

text \<open>The comparison \<open>a < b\<close>: false as soon as one side is \<open>NaN\<close>.\<close>

fun js_less :: "jsnum \<Rightarrow> jsnum \<Rightarrow> bool" where
  "js_less NaN b = False"
| "js_less a NaN = False"
| "js_less (Fin x) (Fin y) = (x < y)"
| "js_less (Fin x) PInf = True"
| "js_less NInf (Fin y) = True"
| "js_less NInf PInf = True"
| "js_less a b = False"

fun Math_floor :: "jsnum \<Rightarrow> jsnum" where
  "Math_floor (Fin x) = Fin (of_int \<lfloor>x\<rfloor>)"
| "Math_floor a = a"

text \<open>
  \<open>Math.pow(10, y)\<close>. ECMAScript leaves the accuracy of \<open>Math.pow\<close> to the implementation;
  the model takes the correctly rounded power.
\<close>

fun Math_pow10 :: "jsnum \<Rightarrow> jsnum" where
  "Math_pow10 NaN = NaN"
| "Math_pow10 PInf = PInf"
| "Math_pow10 NInf = Fin 0"
| "Math_pow10 (Fin y) = rnd64 (10 powr y)"

text \<open>
  \<open>parseFloat(x.toFixed(f))\<close> as one operation on numbers. \<open>toFixed\<close> prints the decimal
  with \<open>f\<close> fraction digits nearest to the exact value of \<open>x\<close> (of two nearest ones the
  larger in magnitude), \<open>parseFloat\<close> reads it back as the nearest double. A value that is
  not finite prints as its name, and one of magnitude \<open>10^21\<close> or more prints in the
  shortest form that reads back as itself.
\<close>

definition round_half_up :: "real \<Rightarrow> int" where
  "round_half_up x = \<lfloor>x + 1 / 2\<rfloor>"

fun toFixed_parsed :: "nat \<Rightarrow> jsnum \<Rightarrow> jsnum" where
  "toFixed_parsed f (Fin x) =
     (if 10 ^ 21 \<le> \<bar>x\<bar> then Fin x
      else rnd64 (sgn x * of_int (round_half_up (\<bar>x\<bar> * 10 ^ f)) / 10 ^ f))"
| "toFixed_parsed f a = a"

section \<open>Strings: \<open>trim\<close>, \<open>parseFloat\<close> and the two regular expressions\<close>

text \<open>
  Strings are lists of bytes. White space is the ASCII white space: the Unicode spaces
  that JavaScript strips as well take several bytes here and are left alone.
\<close>

definition is_digit :: "char \<Rightarrow> bool" where
  "is_digit c = (c \<in> set ''0123456789'')"

definition is_space :: "char \<Rightarrow> bool" where
  "is_space c = (c \<in> set [CHR '' '', CHR 0x09, CHR 0x0A, CHR 0x0B, CHR 0x0C, CHR 0x0D])"

definition trim :: "string \<Rightarrow> string" where
  "trim s = rev (dropWhile is_space (rev (dropWhile is_space s)))"

definition digits_val :: "string \<Rightarrow> nat" where
  "digits_val ds = foldl (\<lambda>a c. 10 * a + (of_char c - 48)) 0 ds"

text \<open>The exponent part \<open>e\<close>, \<open>e+\<close> or \<open>e-\<close> followed by digits; anything else counts as no exponent.\<close>

definition exponent_part :: "string \<Rightarrow> int" where
  "exponent_part s =
     (case s of
        [] \<Rightarrow> 0
      | c # r \<Rightarrow>
          if c = CHR ''e'' \<or> c = CHR ''E'' then
            (case r of
               [] \<Rightarrow> 0
             | d # r' \<Rightarrow>
                 if d = CHR ''-'' then
                   (if takeWhile is_digit r' = [] then 0 else - int (digits_val (takeWhile is_digit r')))
                 else if d = CHR ''+'' then int (digits_val (takeWhile is_digit r'))
                 else int (digits_val (takeWhile is_digit r)))
          else 0)"

text \<open>
  \<open>parseFloat\<close>: skip leading white space, read the longest prefix that is a decimal
  literal (sign, \<open>Infinity\<close>, or digits with an optional fraction and exponent) and round its
  value to a double; \<open>NaN\<close> when there is no such prefix.
\<close>

definition parseFloat :: "string \<Rightarrow> jsnum" where
  "parseFloat str =
     (let s = dropWhile is_space str;
          neg = (take 1 s = ''-'');
          s1 = (if take 1 s = ''-'' \<or> take 1 s = ''+'' then drop 1 s else s)
      in if take 8 s1 = ''Infinity'' then (if neg then NInf else PInf)
         else
           let ip = takeWhile is_digit s1;
               r1 = dropWhile is_digit s1;
               dot = (take 1 r1 = ''.'');
               fp = (if dot then takeWhile is_digit (drop 1 r1) else []);
               r2 = (if dot then dropWhile is_digit (drop 1 r1) else r1)
           in if ip = [] \<and> fp = [] then NaN
              else
                let mv = (real (digits_val ip) + real (digits_val fp) / 10 ^ length fp)
                           * 10 powi exponent_part r2
                in rnd64 (if neg then - mv else mv))"

text \<open>
  \<open>stdout.match(/LABEL([-\d.]+)/)\<close> for a literal \<open>LABEL\<close>: the leftmost place where the label
  is followed by at least one character of the class; the group is the longest run of
  class characters there.
\<close>

definition in_class :: "char \<Rightarrow> bool" where
  "in_class c = (c = CHR ''-'' \<or> is_digit c \<or> c = CHR ''.'')"

fun match_level :: "string \<Rightarrow> string \<Rightarrow> string option" where
  "match_level label [] = None"
| "match_level label (c # cs) =
     (let grp = takeWhile in_class (drop (length label) (c # cs))
      in if take (length label) (c # cs) = label \<and> grp \<noteq> [] then Some grp
         else match_level label cs)"

section \<open>The per-window analysis\<close>

text \<open>
  An external command either fails (the promise of \<open>execAsync\<close> rejects with an error
  carrying a message) or delivers its standard output.
\<close>

datatype error = Error (message: string)

type_synonym exec_result = "error + string"

record sample =
  time :: jsnum
  amplitude :: jsnum
  bass :: jsnum
  mid :: jsnum
  high :: jsnum
  peak :: jsnum

text \<open>
  \<open>analyzeSample(audioPath, time, duration)\<close>. What the world answers to this call is an
  argument: \<open>res\<close> is the outcome of the \<open>ffmpeg\<close> command built from the path, the time and
  the width, and \<open>(r1, r2, r3)\<close> are the three values \<open>Math.random()\<close> returns. Nothing
  after the \<open>await\<close> can throw, so the \<open>catch\<close> branch is taken exactly when the command
  fails.
\<close>

definition analyzeSample :: "exec_result \<Rightarrow> real \<times> real \<times> real \<Rightarrow> jsnum \<Rightarrow> sample" where
  "analyzeSample res rs t =
     (case res of
        Inl err \<Rightarrow>
          \<lparr>time = toFixed_parsed 2 t, amplitude = Fin 0, bass = Fin 0, mid = Fin 0,
           high = Fin 0, peak = Fin 0\<rparr>
      | Inr stdout \<Rightarrow>
          (case rs of (r1, r2, r3) \<Rightarrow>
            let rmsMatch = match_level ''RMS level dB: '' stdout;
                peakMatch = match_level ''Peak level dB: '' stdout;
                rmsDb = (case rmsMatch of Some g \<Rightarrow> parseFloat g | None \<Rightarrow> Fin (- 60));
                peakDb = (case peakMatch of Some g \<Rightarrow> parseFloat g | None \<Rightarrow> Fin (- 60));
                amp = Math_pow10 (js_div rmsDb (Fin 20));
                pk = Math_pow10 (js_div peakDb (Fin 20));
                bassv = js_mul amp (js_add (lit (8 / 10)) (js_mul (Fin r1) (lit (2 / 10))));
                midv = js_mul amp (js_add (lit (7 / 10)) (js_mul (Fin r2) (lit (3 / 10))));
                highv = js_mul amp (js_add (lit (6 / 10)) (js_mul (Fin r3) (lit (4 / 10))))
            in \<lparr>time = toFixed_parsed 2 t, amplitude = toFixed_parsed 4 amp,
                bass = toFixed_parsed 4 bassv, mid = toFixed_parsed 4 midv,
                high = toFixed_parsed 4 highv, peak = toFixed_parsed 4 pk\<rparr>))"

section \<open>The sampler\<close>

text \<open>
  What the world answers during one call of \<open>analyzeAudio\<close>: the outcome of the
  \<open>ffprobe\<close> command, and for the window with index \<open>k\<close> the outcome of its \<open>ffmpeg\<close>
  command and the three random numbers drawn for it. The answers are indexed by the
  window, not by the moment they arrive, so every order of completion inside a batch
  is covered.
\<close>

record env =
  probe :: exec_result
  ffmpeg :: "nat \<Rightarrow> exec_result"
  random :: "nat \<Rightarrow> real \<times> real \<times> real"

record AnalysisResult =
  assetId :: string
  duration :: jsnum
  interval_of :: jsnum
  samples :: nat
  data :: "sample list"

definition interval :: jsnum where
  "interval = lit (1 / 10)"

text \<open>
  The inner loop \<open>for (j = 0; j < 10 && (i + j) < numSamples; j++)\<close>: it starts the analysis
  of window \<open>i + j\<close>; \<open>Promise.all\<close> delivers the results in the order of the calls. The
  loop counters are natural numbers here: a run that returns has fewer than \<open>2^32\<close>
  windows, the most a JavaScript array holds, and on whole numbers below \<open>2^53\<close> the
  arithmetic of doubles is exact. Memory is not modelled.
\<close>

function chunkPromises :: "env \<Rightarrow> jsnum \<Rightarrow> nat \<Rightarrow> nat \<Rightarrow> sample list \<Rightarrow> sample list" where
  "chunkPromises e numSamples i j acc =
     (if j < 10 \<and> js_less (Fin (real (i + j))) numSamples
      then chunkPromises e numSamples i (j + 1)
             (acc @ [analyzeSample (ffmpeg e (i + j)) (random e (i + j))
                       (js_mul (Fin (real (i + j))) interval)])
      else acc)"
  by pat_completeness auto
termination
  by (relation "measure (\<lambda>(e, numSamples, i, j, acc). 10 - j)") auto

declare chunkPromises.simps [simp del]

text \<open>
  The outer loop \<open>for (i = 0; i < numSamples; i += 10)\<close>. It does not end when
  \<open>numSamples\<close> is \<open>Infinity\<close>; not returning is the value \<open>None\<close>.
\<close>

partial_function (option) sampling_loop ::
    "env \<Rightarrow> jsnum \<Rightarrow> nat \<Rightarrow> sample list \<Rightarrow> sample list option" where
  "sampling_loop e numSamples i acc =
     (if js_less (Fin (real i)) numSamples
      then sampling_loop e numSamples (i + 10) (acc @ chunkPromises e numSamples i 0 [])
      else Some acc)"

text \<open>
  \<open>path.basename(audioPath, '.mp3')\<close> for a path without a trailing slash: the part after
  the last slash, without the extension when something is left of it.
\<close>

definition basename :: "string \<Rightarrow> string \<Rightarrow> string" where
  "basename p ext =
     (let b = rev (takeWhile (\<lambda>c. c \<noteq> CHR ''/'') (rev p))
      in if length ext < length b \<and> drop (length b - length ext) b = ext
         then take (length b - length ext) b else b)"

text \<open>
  \<open>analyzeAudio\<close>: \<open>Some (Inl err)\<close> is the exception it throws, \<open>Some (Inr r)\<close> the object it
  returns, \<open>None\<close> a call that never returns.
\<close>

definition analyzeAudio :: "env \<Rightarrow> string \<Rightarrow> (error + AnalysisResult) option" where
  "analyzeAudio e audioPath =
     (case probe e of
        Inl err \<Rightarrow> Some (Inl (Error (''Audio analysis failed: '' @ message err)))
      | Inr durationOutput \<Rightarrow>
          (let dur = parseFloat (trim durationOutput);
               numSamples = Math_floor (js_div dur interval)
           in case sampling_loop e numSamples 0 [] of
                None \<Rightarrow> None
              | Some smpls \<Rightarrow>
                  Some (Inr \<lparr>assetId = basename audioPath ''.mp3'', duration = dur,
                             interval_of = interval, samples = length smpls, data = smpls\<rparr>)))"

section \<open>The request handler and its cache\<close>

text \<open>
  What the world answers during one request: whether creating the scratch directory,
  the HTTP request, writing the file and deleting it fail (\<open>None\<close>: they succeed), and the
  answers to the sampler.
\<close>

record world =
  mkdirSync :: "error option"
  axios :: "error option"
  writer :: "error option"
  sampler :: env
  unlinkSync :: "error option"

text \<open>
  \<open>downloadRobloxAudio\<close>: the scratch directory is created when it is missing, the asset
  is requested, and the body is written to the temp file. An error of the request is
  wrapped in \<open>Failed to download audio\<close>; an error of \<open>mkdirSync\<close> or of the writer is
  passed on as it is. A download whose stream neither finishes nor fails never returns;
  such a request stays pending for ever.
\<close>

definition tempPath :: "string \<Rightarrow> string" where
  "tempPath aid = ''/app/temp/'' @ aid @ ''.mp3''"

definition downloadRobloxAudio :: "world \<Rightarrow> string \<Rightarrow> error + string" where
  "downloadRobloxAudio w aid =
     (case mkdirSync w of
        Some err \<Rightarrow> Inl err
      | None \<Rightarrow>
          (case axios w of
             Some err \<Rightarrow> Inl (Error (''Failed to download audio: '' @ message err))
           | None \<Rightarrow> (case writer w of Some err \<Rightarrow> Inl err | None \<Rightarrow> Inr (tempPath aid))))"

text \<open>The response: status 200 with \<open>success: true\<close>, or status 500 with \<open>success: false\<close>.\<close>

datatype response =
    Ok_json (cached: bool) (payload: AnalysisResult)
  | Error_json string

fun status :: "response \<Rightarrow> nat" where
  "status (Ok_json c d) = 200"
| "status (Error_json m) = 500"

fun success :: "response \<Rightarrow> bool" where
  "success (Ok_json c d) = True"
| "success (Error_json m) = False"

type_synonym cache = "string \<rightharpoonup> AnalysisResult"

text \<open>
  The \<open>try\<close> block of the handler of \<open>GET /api/analyze/:assetId\<close> with its \<open>catch\<close>. The
  cache is touched once, by \<open>cache.set\<close> after the analysis; from there to the response
  nothing is awaited, so \<open>c\<close> is the cache at that moment. The result is the response
  and the cache after it; \<open>None\<close> when the analysis never returns.
\<close>

definition pipeline :: "world \<Rightarrow> cache \<Rightarrow> string \<Rightarrow> (response \<times> cache) option" where
  "pipeline w c aid =
     (case downloadRobloxAudio w aid of
        Inl err \<Rightarrow> Some (Error_json (message err), c)
      | Inr audioPath \<Rightarrow>
          (case analyzeAudio (sampler w) audioPath of
             None \<Rightarrow> None
           | Some (Inl err) \<Rightarrow> Some (Error_json (message err), c)
           | Some (Inr frequencyData) \<Rightarrow>
               (let c' = c(aid \<mapsto> frequencyData)
                in case unlinkSync w of
                     Some err \<Rightarrow> Some (Error_json (message err), c')
                   | None \<Rightarrow> Some (Ok_json False frequencyData, c'))))"

text \<open>
  The handler when no other request is served in between: the look-up in the cache,
  and on a miss the \<open>try\<close> block.
\<close>

definition analyze_handler :: "world \<Rightarrow> cache \<Rightarrow> string \<Rightarrow> (response \<times> cache) option" where
  "analyze_handler w c aid =
     (case c aid of
        Some d \<Rightarrow> Some (Ok_json True d, c)
      | None \<Rightarrow> pipeline w c aid)"

text \<open>
  The server with requests that overlap. A handler runs up to its first \<open>await\<close> when the
  request arrives: on a hit it answers at once, on a miss it starts the download and the
  request is pending. A pending request finishes at any later moment, in any order, with
  the rest of its \<open>try\<close> block.
\<close>

record server =
  store :: cache
  pending :: "(string \<times> world) list"

datatype server_event = Request string world | Finish nat

definition server_step ::
    "server \<Rightarrow> server_event \<Rightarrow> (response option \<times> server) option" where
  "server_step s ev =
     (case ev of
        Request aid w \<Rightarrow>
          (case store s aid of
             Some d \<Rightarrow> Some (Some (Ok_json True d), s)
           | None \<Rightarrow> Some (None, s\<lparr>pending := pending s @ [(aid, w)]\<rparr>))
      | Finish n \<Rightarrow>
          if n < length (pending s) then
            (case pipeline (snd (pending s ! n)) (store s) (fst (pending s ! n)) of
               None \<Rightarrow> None
             | Some (r, c') \<Rightarrow>
                 Some (Some r, \<lparr>store = c', pending = take n (pending s) @ drop (Suc n) (pending s)\<rparr>))
          else None)"

text \<open>The server after a list of events; \<open>None\<close> when one of them cannot happen.\<close>

fun serve :: "server \<Rightarrow> server_event list \<Rightarrow> server option" where
  "serve s [] = Some s"
| "serve s (ev # evs) =
     (case server_step s ev of None \<Rightarrow> None | Some (r, s') \<Rightarrow> serve s' evs)"

section \<open>The batches as a transition system\<close>

text \<open>
  The two loops of \<open>analyzeAudio\<close> once more, this time with the moments at which the
  external processes start and exit, to state how many of them run at once.
\<close>











section \<open>Notions used in the statements\<close>

text \<open>The sample of the window with index \<open>k\<close>: the call the inner loop makes for it.\<close>

definition window :: "env \<Rightarrow> nat \<Rightarrow> sample" where
  "window e k = analyzeSample (ffmpeg e k) (random e k) (js_mul (Fin (real k)) interval)"

text \<open>\<open>bounds ns N\<close>: the loop test \<open>k < ns\<close> holds for exactly the indices below \<open>N\<close>.\<close>

definition bounds :: "jsnum \<Rightarrow> nat \<Rightarrow> bool" where
  "bounds ns N = (\<forall>k. js_less (Fin (real k)) ns = (k < N))"

text \<open>
  The RMS and peak levels \<open>analyzeSample\<close> reads from an output of \<open>ffmpeg\<close>, and its
  conversion of a level in dB to a linear value rounded to four decimals.
\<close>

definition rmsDb :: "string \<Rightarrow> jsnum" where
  "rmsDb stdout =
     (case match_level ''RMS level dB: '' stdout of Some g \<Rightarrow> parseFloat g | None \<Rightarrow> Fin (- 60))"

definition peakDb :: "string \<Rightarrow> jsnum" where
  "peakDb stdout =
     (case match_level ''Peak level dB: '' stdout of Some g \<Rightarrow> parseFloat g | None \<Rightarrow> Fin (- 60))"

definition dB_to_linear :: "jsnum \<Rightarrow> jsnum" where
  "dB_to_linear db = toFixed_parsed 4 (Math_pow10 (js_div db (Fin 20)))"

section \<open>Concrete runs\<close>

text \<open>The double nearest to \<open>0.1\<close>.\<close>

definition interval_value :: real where
  "interval_value = 3602879701896397 / 36028797018963968"

text \<open>
  A run in which \<open>ffprobe\<close> prints \<open>N/A\<close>, as it does for a file whose duration it
  cannot determine.
\<close>

definition env_na :: env where
  "env_na = \<lparr>probe = Inr (''N/A'' @ [CHR 0x0A]), ffmpeg = (\<lambda>k. Inl (Error ''Command failed'')),
             random = (\<lambda>k. (0, 0, 0))\<rparr>"

text \<open>A run in which \<open>ffprobe\<close> itself fails.\<close>

definition env_probe_fails :: env where
  "env_probe_fails = \<lparr>probe = Inl (Error ''Command failed: ffprobe''),
             ffmpeg = (\<lambda>k. Inl (Error ''Command failed'')), random = (\<lambda>k. (0, 0, 0))\<rparr>"

text \<open>
  The run of the specification's end-to-end test: the probe prints a duration of 30
  seconds, and for every window \<open>ffmpeg\<close> reports an RMS level of -20 dB and a peak
  level of -10 dB.
\<close>

definition stdout_fixed :: string where
  "stdout_fixed = ''RMS level dB: -20'' @ [CHR 0x0A] @ ''Peak level dB: -10'' @ [CHR 0x0A]"

definition env30 :: env where
  "env30 = \<lparr>probe = Inr (''30.000000'' @ [CHR 0x0A]), ffmpeg = (\<lambda>k. Inr stdout_fixed),
            random = (\<lambda>k. (1 / 2, 1 / 2, 1 / 2))\<rparr>"

text \<open>A run of a short track: the probe prints \<open>out\<close> and every window is analysed.\<close>

definition env_short :: "string \<Rightarrow> env" where
  "env_short out = \<lparr>probe = Inr (out @ [CHR 0x0A]), ffmpeg = (\<lambda>k. Inr stdout_fixed),
            random = (\<lambda>k. (1 / 2, 1 / 2, 1 / 2))\<rparr>"

text \<open>A request for which every step succeeds, and one whose temp file cannot be deleted.\<close>

definition world30 :: world where
  "world30 = \<lparr>mkdirSync = None, axios = None, writer = None, sampler = env30, unlinkSync = None\<rparr>"

definition world_unlink_fails :: world where
  "world_unlink_fails = world30\<lparr>unlinkSync := Some (Error ''ENOENT: no such file or directory'')\<rparr>"

definition world_offline :: world where
  "world_offline = world30\<lparr>axios := Some (Error ''connect ECONNREFUSED'')\<rparr>"

text \<open>The result of analysing asset 123 in that run.\<close>

definition result30 :: AnalysisResult where
  "result30 = \<lparr>assetId = ''123'', duration = Fin 30, interval_of = interval,
                samples = 300, data = map (window env30) [0 ..< 300]\<rparr>"

text \<open>
  What \<open>ffmpeg\<close> prints for a window of digital silence, for a window that peaks half a
  dB above full scale (a clipped track decoded to floating point), and for a window far
  above full scale.
\<close>

definition stdout_silent :: string where
  "stdout_silent = ''RMS level dB: -inf'' @ [CHR 0x0A] @ ''Peak level dB: -inf'' @ [CHR 0x0A]"

definition stdout_clipped :: string where
  "stdout_clipped = ''RMS level dB: -9.8'' @ [CHR 0x0A] @ ''Peak level dB: 0.5'' @ [CHR 0x0A]"

definition stdout_loud :: string where
  "stdout_loud = ''RMS level dB: 20'' @ [CHR 0x0A] @ ''Peak level dB: 20'' @ [CHR 0x0A]"

section \<open>Rounding to a double\<close>


lemma rhe_int: "round_half_even (of_int m) = m"
  by (simp add: round_half_even_def)

lemma rhe_near:
  assumes "\<bar>x - of_int m\<bar> < 1 / 2"
  shows "round_half_even x = m"
proof (cases "of_int m \<le> x")
  case True
  with assms have "\<lfloor>x\<rfloor> = m" by linarith
  with assms True show ?thesis by (simp add: round_half_even_def Let_def)
next
  case False
  with assms have f: "\<lfloor>x\<rfloor> = m - 1" by linarith
  from assms False have "1 / 2 < x - of_int (m - 1)" by simp
  with f show ?thesis by (simp add: round_half_even_def Let_def)
qed

lemma rhe_err: "\<bar>of_int (round_half_even x) - x\<bar> \<le> 1 / 2"
proof -
  have "of_int \<lfloor>x\<rfloor> \<le> x" "x < of_int \<lfloor>x\<rfloor> + 1" by linarith+
  then show ?thesis
    by (auto simp: round_half_even_def Let_def)
qed

lemma rhe_nonneg: "0 \<le> x \<Longrightarrow> 0 \<le> round_half_even x"
  by (auto simp: round_half_even_def Let_def)

lemma powi_pos: "0 < (2::real) powi k"
  by (simp add: zero_less_power_int)

lemma binade:
  assumes "2 powi k \<le> \<bar>x\<bar>" "\<bar>x\<bar> < 2 powi (k + 1)"
  shows "\<lfloor>log 2 \<bar>x\<bar>\<rfloor> = k"
proof -
  have pos: "0 < \<bar>x\<bar>" using assms(1) powi_pos [of k] by linarith
  have "(2::real) powr real_of_int k = 2 powi k" "(2::real) powr (real_of_int k + 1) = 2 powi (k + 1)"
    using powr_real_of_int' [of "2::real" k] powr_real_of_int' [of "2::real" "k + 1"] by simp_all
  with assms show ?thesis
    using floor_log_eq_powr_iff [of "\<bar>x\<bar>" 2 k] pos by simp
qed

lemma rnd64_eval:
  assumes "2 powi k \<le> \<bar>x\<bar>" "\<bar>x\<bar> < 2 powi (k + 1)" "- 1022 \<le> k"
    and "\<bar>x / 2 powi (k - 52) - of_int m\<bar> < 1 / 2"
    and "\<bar>of_int m * 2 powi (k - 52)\<bar> < (2::real) powi 1024"
  shows "rnd64 x = Fin (of_int m * 2 powi (k - 52))"
proof -
  have nz: "x \<noteq> 0"
  proof
    assume "x = 0"
    with assms(1) have "(2::real) powi k \<le> 0" by simp
    with powi_pos [of k] show False by linarith
  qed
  have k: "max \<lfloor>log 2 \<bar>x\<bar>\<rfloor> (- 1022) = k"
    using binade [OF assms(1,2)] assms(3) by simp
  have r: "round_half_even (x / 2 powi (k - 52)) = m"
    by (rule rhe_near [OF assms(4)])
  show ?thesis
    unfolding rnd64_def Let_def k r using nz assms(5) by simp
qed

lemma rnd64_error:
  assumes "2 powi (- 1022) \<le> \<bar>x\<bar>" "\<bar>x\<bar> < 2 powi 1023"
  shows "\<exists>y. rnd64 x = Fin y \<and> \<bar>y - x\<bar> \<le> \<bar>x\<bar> * 2 powi (- 53)"
proof -
  define k where "k = \<lfloor>log 2 \<bar>x\<bar>\<rfloor>"
  have pos: "0 < \<bar>x\<bar>" using assms(1) powi_pos [of "- 1022"] by linarith
  then have nz: "x \<noteq> 0" by auto
  have b: "2 powi k \<le> \<bar>x\<bar>" "\<bar>x\<bar> < 2 powi (k + 1)"
    using floor_log_eq_powr_iff [of "\<bar>x\<bar>" 2 k] pos
      powr_real_of_int' [of "2::real" k] powr_real_of_int' [of "2::real" "k + 1"]
    by (simp_all add: k_def)
  have klo: "- 1022 \<le> k"
  proof (rule ccontr)
    assume "\<not> - 1022 \<le> k"
    then have "k + 1 \<le> - 1022" by simp
    then have "(2::real) powi (k + 1) \<le> 2 powi (- 1022)"
      by (intro power_int_increasing) simp_all
    with b(2) assms(1) show False by linarith
  qed
  have khi: "k \<le> 1022"
  proof (rule ccontr)
    assume "\<not> k \<le> 1022"
    then have "1023 \<le> k" by simp
    then have "(2::real) powi 1023 \<le> 2 powi k"
      by (intro power_int_increasing) simp_all
    with b(1) assms(2) show False by linarith
  qed
  define u where "u = (2::real) powi (k - 52)"
  have upos: "0 < u" by (simp add: u_def powi_pos)
  define y where "y = of_int (round_half_even (x / u)) * u"
  have "\<bar>y - x\<bar> = \<bar>of_int (round_half_even (x / u)) - x / u\<bar> * u"
  proof -
    have "y - x = (of_int (round_half_even (x / u)) - x / u) * u"
      using upos by (simp add: y_def field_simps)
    then show ?thesis using upos by (simp add: abs_mult)
  qed
  also have "\<dots> \<le> 1 / 2 * u"
    using rhe_err [of "x / u"] upos by (intro mult_right_mono) simp_all
  finally have err: "\<bar>y - x\<bar> \<le> u / 2" by simp
  have u2: "u / 2 = 2 powi k * 2 powi (- 53)"
  proof -
    have "u = 2 powi (k + (- 52))" by (simp add: u_def)
    also have "\<dots> = 2 powi k * 2 powi (- 52)"
      by (rule power_int_add) simp
    finally have "u / 2 = 2 powi k * (2 powi (- 52) / 2)" by simp
    moreover have "(2::real) powi (- 52) / 2 = 2 powi (- 53)"
      by (simp add: power_int_minus)
    ultimately show ?thesis by simp
  qed
  have rel: "\<bar>y - x\<bar> \<le> \<bar>x\<bar> * 2 powi (- 53)"
  proof -
    have "u / 2 \<le> \<bar>x\<bar> * 2 powi (- 53)"
      unfolding u2 using b(1) by (intro mult_right_mono) simp_all
    with err show ?thesis by linarith
  qed
  have "\<bar>y\<bar> < 2 powi 1024"
  proof -
    have "(2::real) powi (- 53) \<le> 1"
      by (simp add: power_int_minus field_simps)
    then have "\<bar>x\<bar> * 2 powi (- 53) \<le> \<bar>x\<bar> * 1"
      by (intro mult_left_mono) simp_all
    with rel have "\<bar>y\<bar> \<le> 2 * \<bar>x\<bar>" by linarith
    also have "\<dots> < 2 * 2 powi 1023" using assms(2) by simp
    also have "\<dots> = 2 powi 1024"
      using power_int_add [of "2::real" 1 1023] by simp
    finally show ?thesis .
  qed
  moreover have "max \<lfloor>log 2 \<bar>x\<bar>\<rfloor> (- 1022) = k"
    using klo by (simp add: k_def)
  ultimately have "rnd64 x = Fin y"
    unfolding rnd64_def Let_def using nz by (simp add: y_def u_def)
  with rel show ?thesis by blast
qed

lemma rnd64_tenth: "rnd64 (1 / 10) = Fin (3602879701896397 / 36028797018963968)"
  using rnd64_eval [of "- 4" "1 / 10" 7205759403792794]
  by (simp add: power_int_minus)

lemma pow2_m1022_le: "(2::real) powi (- 1022) \<le> 1 / 1048576"
proof -
  have "(2::real) powi (- 1022) \<le> 2 powi (- 20)"
    by (intro power_int_increasing) simp_all
  moreover have "(2::real) powi (- 20) = 1 / 1048576" by (simp add: power_int_minus)
  ultimately show ?thesis by simp
qed

lemma pow2_1023_ge: "(2::real) ^ 33 \<le> 2 powi 1023"
proof -
  have "(2::real) powi 33 \<le> 2 powi 1023"
    by (intro power_int_increasing) simp_all
  then show ?thesis by simp
qed

lemma eps53: "(2::real) powi (- 53) = 1 / 9007199254740992"
  by (simp add: power_int_minus)

text \<open>A number between \<open>2^-20\<close> and \<open>2^32\<close> rounds to a double within relative error \<open>2^-53\<close>.\<close>

lemma rnd64_mid:
  assumes "1 / 1048576 \<le> x" "x \<le> 2 ^ 32"
  obtains y where "rnd64 x = Fin y" "x - x / 9007199254740992 \<le> y"
    "y \<le> x + x / 9007199254740992"
proof -
  have "2 powi (- 1022) \<le> \<bar>x\<bar>" using assms(1) pow2_m1022_le by linarith
  moreover have "\<bar>x\<bar> < 2 powi 1023" using assms pow2_1023_ge by simp
  ultimately obtain y where "rnd64 x = Fin y" "\<bar>y - x\<bar> \<le> \<bar>x\<bar> * 2 powi (- 53)"
    using rnd64_error by blast
  with assms(1) have "x - x / 9007199254740992 \<le> y" "y \<le> x + x / 9007199254740992"
    unfolding eps53 by linarith+
  with \<open>rnd64 x = Fin y\<close> that show ?thesis by blast
qed

section \<open>The loops\<close>

lemma less_ceil: "(real k < n) = (k < nat \<lceil>n\<rceil>)"
  by linarith

lemma bounds_Fin: "bounds (Fin n) (nat \<lceil>n\<rceil>)"
  by (simp add: bounds_def less_ceil)

lemma bounds_NaN: "bounds NaN 0"
  by (simp add: bounds_def)

lemma bounds_NInf: "bounds NInf 0"
  by (simp add: bounds_def)

lemma boundsD: "bounds ns N \<Longrightarrow> js_less (Fin (real k)) ns = (k < N)"
  by (simp add: bounds_def)

lemma chunkPromises_bounds:
  assumes "bounds ns N"
  shows "chunkPromises e ns i j acc = acc @ map (window e) [i + j ..< min (i + 10) N]"
  using assms
proof (induction e ns i j acc rule: chunkPromises.induct)
  case (1 e ns i j acc)
  have c: "js_less (Fin (real (i + j))) ns = (i + j < N)"
    by (rule boundsD [OF "1.prems"])
  have w: "analyzeSample (ffmpeg e (i + j)) (random e (i + j))
      (js_mul (Fin (real (i + j))) interval) = window e (i + j)"
    by (simp only: window_def)
  show ?case
  proof (cases "j < 10 \<and> i + j < N")
    case True
    then have cond: "j < 10 \<and> js_less (Fin (real (i + j))) ns"
      by (simp only: c)
    have "chunkPromises e ns i j acc =
        chunkPromises e ns i (j + 1) (acc @ [window e (i + j)])"
      by (subst chunkPromises.simps) (simp only: cond w if_True simp_thms)
    also have "\<dots> = (acc @ [window e (i + j)]) @ map (window e) [i + (j + 1) ..< min (i + 10) N]"
      using "1.IH" [OF cond "1.prems"] by (simp only: w)
    also have "\<dots> = acc @ map (window e) [i + j ..< min (i + 10) N]"
    proof -
      from True have "i + j < min (i + 10) N" by simp
      then have "[i + j ..< min (i + 10) N] = (i + j) # [i + (j + 1) ..< min (i + 10) N]"
        using upt_conv_Cons [of "i + j" "min (i + 10) N"] by simp
      then show ?thesis by simp
    qed
    finally show ?thesis .
  next
    case False
    then have "chunkPromises e ns i j acc = acc"
      by (subst chunkPromises.simps) (simp only: c if_False)
    moreover have "[i + j ..< min (i + 10) N] = []"
      using False by auto
    ultimately show ?thesis by simp
  qed
qed

lemma sampling_loop_bounds:
  assumes "bounds ns N"
  shows "sampling_loop e ns i acc = Some (acc @ map (window e) [i ..< N])"
proof (induction "N - i" arbitrary: i acc rule: less_induct)
  case less
  have c: "js_less (Fin (real i)) ns = (i < N)"
    by (rule boundsD [OF assms])
  show ?case
  proof (cases "i < N")
    case True
    have split: "[i ..< N] = [i ..< min (i + 10) N] @ [i + 10 ..< N]"
    proof (cases "i + 10 \<le> N")
      case a: True
      then show ?thesis
        using upt_add_eq_append [of i "i + 10" "N - (i + 10)"] by (simp add: min_def)
    next
      case False
      then show ?thesis using True by (simp add: min_def)
    qed
    have "sampling_loop e ns i acc =
        sampling_loop e ns (i + 10) (acc @ chunkPromises e ns i 0 [])"
      using True by (subst sampling_loop.simps) (simp only: c if_True)
    also have "\<dots> = Some ((acc @ chunkPromises e ns i 0 []) @ map (window e) [i + 10 ..< N])"
      using True by (intro less) linarith
    finally show ?thesis
      by (simp add: chunkPromises_bounds [OF assms] split)
  next
    case False
    then show ?thesis
      by (subst sampling_loop.simps) (simp only: c if_False, simp)
  qed
qed

lemma sampling_loop_Some_not_PInf:
  assumes "sampling_loop e ns i acc = Some r"
  shows "ns \<noteq> PInf"
proof (rule sampling_loop.raw_induct [where P = "\<lambda>e ns i acc r. ns \<noteq> PInf", OF _ assms])
  fix f e' ns' i' acc' r'
  assume IH: "\<And>e ns i acc r. f e ns i acc = Some r \<Longrightarrow> ns \<noteq> PInf"
    and eq: "(if js_less (Fin (real i')) ns'
              then f e' ns' (i' + 10) (acc' @ chunkPromises e' ns' i' 0 []) else Some acc') = Some r'"
  show "ns' \<noteq> PInf"
  proof (cases "js_less (Fin (real i')) ns'")
    case True
    with eq have "f e' ns' (i' + 10) (acc' @ chunkPromises e' ns' i' 0 []) = Some r'"
      by simp
    then show ?thesis by (rule IH)
  next
    case False
    then show ?thesis by (cases ns') simp_all
  qed
qed

lemma sampling_loop_PInf: "sampling_loop e PInf i acc = None"
proof (cases "sampling_loop e PInf i acc")
  case None
  then show ?thesis .
next
  case (Some r)
  then have "PInf \<noteq> PInf" by (rule sampling_loop_Some_not_PInf)
  then show ?thesis by simp
qed

section \<open>What \<open>analyzeAudio\<close> returns\<close>

lemma numSamples_cases:
  obtains N where "bounds ns N" | "ns = PInf"
proof (cases ns)
  case NaN
  then show ?thesis using bounds_NaN that by blast
next
  case PInf
  then show ?thesis using that by blast
next
  case NInf
  then show ?thesis using bounds_NInf that by blast
next
  case (Fin n)
  then show ?thesis using bounds_Fin that by blast
qed

lemma analyzeAudio_bounds:
  assumes "probe e = Inr out"
    and "bounds (Math_floor (js_div (parseFloat (trim out)) interval)) N"
  shows "analyzeAudio e p =
           Some (Inr \<lparr>assetId = basename p ''.mp3'', duration = parseFloat (trim out),
                      interval_of = interval, samples = N, data = map (window e) [0 ..< N]\<rparr>)"
  using assms by (simp add: analyzeAudio_def Let_def sampling_loop_bounds)

lemma analyzeAudio_Inr:
  assumes "analyzeAudio e p = Some (Inr r)"
  obtains out N where "probe e = Inr out"
    and "bounds (Math_floor (js_div (parseFloat (trim out)) interval)) N"
    and "r = \<lparr>assetId = basename p ''.mp3'', duration = parseFloat (trim out),
              interval_of = interval, samples = N, data = map (window e) [0 ..< N]\<rparr>"
proof -
  from assms obtain out where out: "probe e = Inr out"
    by (cases "probe e") (auto simp: analyzeAudio_def)
  define ns where "ns = Math_floor (js_div (parseFloat (trim out)) interval)"
  from assms out obtain smpls where l: "sampling_loop e ns 0 [] = Some smpls"
    by (auto simp: analyzeAudio_def Let_def ns_def split: option.splits)
  then have "ns \<noteq> PInf" by (rule sampling_loop_Some_not_PInf)
  then obtain N where b: "bounds ns N"
    using numSamples_cases [of ns] by blast
  from analyzeAudio_bounds [OF out b [unfolded ns_def], of p] assms that [OF out b [unfolded ns_def]]
  show ?thesis by simp
qed

section \<open>Concrete values\<close>

lemma rnd64_nonneg:
  assumes "0 \<le> x" "rnd64 x = Fin y"
  shows "0 \<le> y"
proof (cases "x = 0")
  case True
  with assms show ?thesis by (simp add: rnd64_def)
next
  case False
  define u where "u = (2::real) powi (max \<lfloor>log 2 \<bar>x\<bar>\<rfloor> (- 1022) - 52)"
  have upos: "0 < u" by (simp add: u_def powi_pos)
  from assms(2) False have "y = of_int (round_half_even (x / u)) * u"
    by (simp add: rnd64_def Let_def u_def split: if_splits)
  moreover have "0 \<le> round_half_even (x / u)"
    using assms(1) upos by (intro rhe_nonneg) simp
  ultimately show ?thesis using upos by simp
qed

lemma interval_Fin: "interval = Fin interval_value"
  by (simp add: interval_def lit_def rnd64_tenth interval_value_def)

lemma interval_value_pos: "0 < interval_value"
  by (simp add: interval_value_def)

lemma rnd64_30: "rnd64 30 = Fin 30"
  using rnd64_eval [of 4 30 8444249301319680] by (simp add: power_int_minus)

lemma div_30_interval: "js_div (Fin 30) interval = Fin 300"
  using rnd64_eval [of 8 "30 / interval_value" 5277655813324800]
  by (simp add: interval_Fin interval_value_def power_int_minus)

lemma parse_30: "parseFloat (trim (''30.000000'' @ [CHR 0x0A])) = Fin 30"
  by (simp add: parseFloat_def trim_def is_space_def is_digit_def Let_def digits_val_def
      exponent_part_def rnd64_30)

lemma parse_na: "parseFloat (trim (''N/A'' @ [CHR 0x0A])) = NaN"
  by (simp add: parseFloat_def trim_def is_space_def is_digit_def Let_def)

lemma analyzeAudio_env30:
  "analyzeAudio env30 p =
     Some (Inr \<lparr>assetId = basename p ''.mp3'', duration = Fin 30, interval_of = interval,
                samples = 300, data = map (window env30) [0 ..< 300]\<rparr>)"
proof -
  have "bounds (Fin (of_int 300)) (nat \<lceil>(of_int 300 :: real)\<rceil>)"
    by (rule bounds_Fin)
  then have "bounds (Math_floor (js_div (parseFloat (trim (''30.000000'' @ [CHR 0x0A]))) interval)) 300"
    using parse_30 div_30_interval by simp
  from analyzeAudio_bounds [OF _ this, of env30 p] parse_30 show ?thesis
    by (simp add: env30_def)
qed

lemma pipeline_world30:
  "pipeline world30 Map.empty ''123'' = Some (Ok_json False result30, [''123'' \<mapsto> result30])"
  by (simp add: pipeline_def world30_def downloadRobloxAudio_def tempPath_def
      analyzeAudio_env30 basename_def result30_def)

lemma result30_returned:
  "analyzeAudio env30 ''/app/temp/123.mp3'' = Some (Inr result30)"
  by (simp add: analyzeAudio_env30 result30_def basename_def)

text \<open>A probe that prints \<open>Infinity\<close>: the outer loop never ends and the call never returns.\<close>

lemma analyzeAudio_Infinity:
  assumes "probe e = Inr ''Infinity''"
  shows "analyzeAudio e p = None"
proof -
  have "parseFloat (trim ''Infinity'') = PInf"
    by (simp add: parseFloat_def trim_def is_space_def Let_def)
  moreover have "Math_floor (js_div PInf interval) = PInf"
    using interval_value_pos by (simp add: interval_Fin)
  ultimately show ?thesis
    using assms by (simp add: analyzeAudio_def Let_def sampling_loop_PInf)
qed

section \<open>From dB to linear values\<close>

lemma amplitude_dB: "amplitude (analyzeSample (Inr out) rs t) = dB_to_linear (rmsDb out)"
  by (simp add: analyzeSample_def Let_def rmsDb_def dB_to_linear_def split: prod.split)

lemma peak_dB: "peak (analyzeSample (Inr out) rs t) = dB_to_linear (peakDb out)"
  by (simp add: analyzeSample_def Let_def peakDb_def dB_to_linear_def split: prod.split)

lemma rnd64_m1: "rnd64 (- 1) = Fin (- 1)"
  using rnd64_eval [of 0 "- 1" "- 4503599627370496"] by (simp add: power_int_minus)

lemma rnd64_mhalf: "rnd64 (- (1 / 2)) = Fin (- (1 / 2))"
  using rnd64_eval [of "- 1" "- (1 / 2)" "- 4503599627370496"] by (simp add: power_int_minus)

lemma rnd64_m3: "rnd64 (- 3) = Fin (- 3)"
  using rnd64_eval [of 1 "- 3" "- 6755399441055744"] by (simp add: power_int_minus)

lemma rnd64_1: "rnd64 1 = Fin 1"
  using rnd64_eval [of 0 1 4503599627370496] by (simp add: power_int_minus)

lemma rnd64_10: "rnd64 10 = Fin 10"
  using rnd64_eval [of 3 10 5629499534213120] by (simp add: power_int_minus)

lemma rnd64_m20: "rnd64 (- 20) = Fin (- 20)"
  using rnd64_eval [of 4 "- 20" "- 5629499534213120"] by (simp add: power_int_minus)

lemma rnd64_m10: "rnd64 (- 10) = Fin (- 10)"
  using rnd64_eval [of 3 "- 10" "- 5629499534213120"] by (simp add: power_int_minus)

lemma rnd64_20: "rnd64 20 = Fin 20"
  using rnd64_eval [of 4 20 5629499534213120] by (simp add: power_int_minus)

text \<open>Rounding a value near a decimal with four fraction digits.\<close>

lemma toFixed4_near:
  assumes "rnd64 x = Fin y" "\<bar>y - real n / 10000\<bar> < 1 / 20000" "n \<le> 100000" "0 < n"
  shows "toFixed_parsed 4 (rnd64 x) = rnd64 (real n / 10000)"
proof -
  have n: "real n \<le> 100000" "1 \<le> real n" using assms(3,4) by simp_all
  have ypos: "0 < y" using assms(2) n by linarith
  have "\<bar>y\<bar> < 1000000000000000000000" using assms(2) n by linarith
  then have ysmall: "\<bar>y\<bar> < 10 ^ 21" by simp
  have "\<lfloor>y * 10 ^ 4 + 1 / 2\<rfloor> = int n"
  proof -
    have "real_of_int (int n) \<le> y * 10 ^ 4 + 1 / 2"
      "y * 10 ^ 4 + 1 / 2 < real_of_int (int n) + 1"
      using assms(2) by (simp_all, linarith+)
    then show ?thesis by (simp only: floor_eq_iff)
  qed
  then have "round_half_up (\<bar>y\<bar> * 10 ^ 4) = int n"
    using ypos by (simp add: round_half_up_def)
  then show ?thesis using ypos ysmall by (simp add: assms(1))
qed

lemma dB_to_linear_m20: "dB_to_linear (Fin (- 20)) = lit (1 / 10)"
proof -
  have "Math_pow10 (js_div (Fin (- 20)) (Fin 20)) = rnd64 (1 / 10)"
    by (simp add: rnd64_m1 powr_minus)
  moreover have "toFixed_parsed 4 (rnd64 (1 / 10)) = rnd64 (real 1000 / 10000)"
    by (rule toFixed4_near [OF rnd64_tenth]) simp_all
  moreover have "real 1000 / 10000 = 1 / 10" by simp
  ultimately show ?thesis by (simp only: dB_to_linear_def lit_def)
qed

lemma pow10_mhalf:
  "(3162277 / 10000000 :: real) < 10 powr (- (1 / 2)) \<and>
   (10::real) powr (- (1 / 2)) < 3162278 / 10000000"
proof -
  define v :: real where "v = 10 powr (- (1 / 2))"
  have pos: "0 < v" by (simp add: v_def)
  have "v * v = 10 powr (- (1 / 2) + - (1 / 2))"
    unfolding v_def by (simp only: powr_add)
  also have "- (1 / 2) + - (1 / 2) = (- 1 :: real)" by simp
  also have "(10::real) powr (- 1) = 1 / 10" by (simp add: powr_minus)
  finally have sq: "v * v = 1 / 10" .
  have lo: "3162277 / 10000000 < v"
  proof (rule ccontr)
    assume "\<not> 3162277 / 10000000 < v"
    then have le: "v \<le> 3162277 / 10000000" by simp
    have "v * v \<le> (3162277 / 10000000) * (3162277 / 10000000)"
      by (rule mult_mono [OF le le]) (use pos in simp_all)
    also have "\<dots> < (1 / 10 :: real)" by simp
    finally show False using sq by simp
  qed
  have hi: "v < 3162278 / 10000000"
  proof (rule ccontr)
    assume "\<not> v < 3162278 / 10000000"
    then have ge: "3162278 / 10000000 \<le> v" by simp
    have "(1 / 10 :: real) < (3162278 / 10000000) * (3162278 / 10000000)" by simp
    also have "\<dots> \<le> v * v"
      by (rule mult_mono [OF ge ge]) (use pos in simp_all)
    finally show False using sq by simp
  qed
  from lo hi show ?thesis unfolding v_def by blast
qed

lemma dB_to_linear_m10: "dB_to_linear (Fin (- 10)) = lit (3162 / 10000)"
proof -
  define v :: real where "v = 10 powr (- (1 / 2))"
  have v: "3162277 / 10000000 < v" "v < 3162278 / 10000000"
    using pow10_mhalf unfolding v_def by blast+
  have p: "Math_pow10 (js_div (Fin (- 10)) (Fin 20)) = rnd64 v"
    by (simp add: rnd64_mhalf v_def)
  have "1 / 1048576 \<le> v" "v \<le> 2 ^ 32" using v by simp_all
  then obtain y where y: "rnd64 v = Fin y" and e: "v - v / 9007199254740992 \<le> y"
    "y \<le> v + v / 9007199254740992"
    by (rule rnd64_mid)
  have "\<bar>y - 3162 / 10000\<bar> < 1 / 20000" using e v by linarith
  then have "\<bar>y - real 3162 / 10000\<bar> < 1 / 20000" by simp
  from toFixed4_near [OF y this] have "toFixed_parsed 4 (rnd64 v) = rnd64 (3162 / 10000)"
    by simp
  then show ?thesis
    by (simp only: dB_to_linear_def lit_def p)
qed

lemma dB_to_linear_m60: "dB_to_linear (Fin (- 60)) = lit (1 / 1000)"
proof -
  have p: "Math_pow10 (js_div (Fin (- 60)) (Fin 20)) = rnd64 (1 / 1000)"
    by (simp add: rnd64_m3 powr_minus)
  have "1 / 1048576 \<le> (1 / 1000 :: real)" "(1 / 1000 :: real) \<le> 2 ^ 32" by simp_all
  then obtain y where y: "rnd64 (1 / 1000) = Fin y"
    and e: "1 / 1000 - 1 / 1000 / 9007199254740992 \<le> y" "y \<le> 1 / 1000 + 1 / 1000 / 9007199254740992"
    by (rule rnd64_mid)
  have "\<bar>y - 10 / 10000\<bar> < 1 / 20000" using e by linarith
  then have "\<bar>y - real 10 / 10000\<bar> < 1 / 20000" by simp
  from toFixed4_near [OF y this] have "toFixed_parsed 4 (rnd64 (1 / 1000)) = rnd64 (1 / 1000)"
    by simp
  then show ?thesis
    by (simp only: dB_to_linear_def lit_def p)
qed

lemma dB_to_linear_20: "dB_to_linear (Fin 20) = Fin 10"
proof -
  have p: "Math_pow10 (js_div (Fin 20) (Fin 20)) = rnd64 10"
    by (simp add: rnd64_1)
  have "toFixed_parsed 4 (rnd64 10) = rnd64 (real 100000 / 10000)"
    by (rule toFixed4_near [OF rnd64_10]) simp_all
  also have "\<dots> = Fin 10" by (simp add: rnd64_10)
  finally show ?thesis by (simp only: dB_to_linear_def p)
qed

lemma dB_to_linear_NaN: "dB_to_linear NaN = NaN"
  by (simp add: dB_to_linear_def)

lemma parse_m20: "parseFloat ''-20'' = Fin (- 20)"
  by (simp add: parseFloat_def is_space_def is_digit_def Let_def digits_val_def
      exponent_part_def rnd64_m20)

lemma parse_m10: "parseFloat ''-10'' = Fin (- 10)"
  by (simp add: parseFloat_def is_space_def is_digit_def Let_def digits_val_def
      exponent_part_def rnd64_m10)

lemma parse_20: "parseFloat ''20'' = Fin 20"
  by (simp add: parseFloat_def is_space_def is_digit_def Let_def digits_val_def
      exponent_part_def rnd64_20)

lemma parse_minus: "parseFloat ''-'' = NaN"
  by (simp add: parseFloat_def is_space_def is_digit_def Let_def)

lemma levels_fixed: "rmsDb stdout_fixed = Fin (- 20)" "peakDb stdout_fixed = Fin (- 10)"
  by (simp_all add: rmsDb_def peakDb_def stdout_fixed_def in_class_def is_digit_def Let_def
      parse_m20 parse_m10)

lemma levels_silent: "rmsDb stdout_silent = NaN" "peakDb stdout_silent = NaN"
  by (simp_all add: rmsDb_def peakDb_def stdout_silent_def in_class_def is_digit_def Let_def
      parse_minus)

lemma levels_loud: "rmsDb stdout_loud = Fin 20" "peakDb stdout_loud = Fin 20"
  by (simp_all add: rmsDb_def peakDb_def stdout_loud_def in_class_def is_digit_def Let_def
      parse_20)

text \<open>A level of 0.5 dB.\<close>

lemma rnd64_half: "rnd64 (1 / 2) = Fin (1 / 2)"
  using rnd64_eval [of "- 1" "1 / 2" 4503599627370496] by (simp add: power_int_minus)

lemma parse_half: "parseFloat ''0.5'' = Fin (1 / 2)"
  by (simp add: parseFloat_def is_space_def is_digit_def Let_def digits_val_def
      exponent_part_def rnd64_half)

lemma peakDb_clipped: "peakDb stdout_clipped = Fin (1 / 2)"
  by (simp add: peakDb_def stdout_clipped_def in_class_def is_digit_def Let_def parse_half)

lemma ln10_ge_2: "2 \<le> ln (10::real)"
proof -
  have "exp (2::real) = exp 1 * exp 1"
    using exp_add [of "1::real" 1] by simp
  also have "\<dots> \<le> 3 * 3"
    by (intro mult_mono exp_le) simp_all
  finally have "exp (2::real) \<le> 10" by simp
  then show ?thesis by (simp add: ln_ge_iff)
qed

lemma pow10_bounds:
  fixes z :: real
  assumes "1 / 50 \<le> z" "z \<le> 1"
  shows "26 / 25 \<le> 10 powr z" "10 powr z \<le> 10"
proof -
  have "1 / 25 \<le> z * 2" using assms(1) by simp
  also have "\<dots> \<le> z * ln 10"
    using assms(1) ln10_ge_2 by (intro mult_left_mono) simp_all
  finally have "1 + 1 / 25 \<le> 1 + z * ln 10" by simp
  also have "\<dots> \<le> exp (z * ln 10)" by (rule exp_ge_add_one_self)
  also have "\<dots> = 10 powr z" by (simp add: powr_def)
  finally show "26 / 25 \<le> 10 powr z" by simp
  have "(10::real) powr z \<le> 10 powr 1"
    using assms(2) by (intro powr_mono) simp_all
  then show "10 powr z \<le> 10" by simp
qed

lemma dB_to_linear_half: "\<exists>v. dB_to_linear (Fin (1 / 2)) = Fin v \<and> 1 < v"
proof -
  have "1 / 1048576 \<le> (1 / 40 :: real)" "(1 / 40 :: real) \<le> 2 ^ 32" by simp_all
  then obtain z where z: "rnd64 (1 / 40) = Fin z"
    and zb: "1 / 40 - 1 / 40 / 9007199254740992 \<le> z" "z \<le> 1 / 40 + 1 / 40 / 9007199254740992"
    by (rule rnd64_mid)
  have d: "js_div (Fin (1 / 2)) (Fin 20) = Fin z"
    using z by simp
  have "1 / 50 \<le> z" "z \<le> 1" using zb by linarith+
  then have w: "26 / 25 \<le> 10 powr z" "10 powr z \<le> 10"
    by (rule pow10_bounds)+
  define w where "w = 10 powr z"
  have wb: "26 / 25 \<le> w" "w \<le> 10" using w by (simp_all add: w_def)
  then have "1 / 1048576 \<le> w" "w \<le> 2 ^ 32" by simp_all
  then obtain y where y: "rnd64 w = Fin y"
    and yb: "w - w / 9007199254740992 \<le> y" "y \<le> w + w / 9007199254740992"
    by (rule rnd64_mid)
  have ylo: "103 / 100 \<le> y" and yhi: "y \<le> 11" using yb wb by linarith+
  define n where "n = round_half_up (\<bar>y\<bar> * 10 ^ 4)"
  have nb: "10300 \<le> n" "n \<le> 110001"
  proof -
    have "real_of_int 10300 \<le> \<bar>y\<bar> * 10 ^ 4 + 1 / 2" using ylo by simp
    then show "10300 \<le> n" unfolding n_def round_half_up_def by (simp only: le_floor_iff)
    have "\<bar>y\<bar> * 10 ^ 4 + 1 / 2 < real_of_int 110001 + 1" using ylo yhi by simp
    then have "\<lfloor>\<bar>y\<bar> * 10 ^ 4 + 1 / 2\<rfloor> < 110001 + 1" by (simp only: floor_less_iff of_int_add of_int_1)
    then show "n \<le> 110001" unfolding n_def round_half_up_def by simp
  qed
  define x where "x = real_of_int n / 10 ^ 4"
  have xb: "103 / 100 \<le> x" "x \<le> 12"
    using nb by (simp_all add: x_def field_simps)
  then have "1 / 1048576 \<le> x" "x \<le> 2 ^ 32" by simp_all
  then obtain v where v: "rnd64 x = Fin v"
    and vb: "x - x / 9007199254740992 \<le> v" "v \<le> x + x / 9007199254740992"
    by (rule rnd64_mid)
  have "1 < v" using vb xb by linarith
  moreover have "toFixed_parsed 4 (Fin y) = rnd64 x"
  proof -
    have "\<bar>y\<bar> < 1000000000000000000000" using ylo yhi by linarith
    then have "\<not> 10 ^ 21 \<le> \<bar>y\<bar>" by simp
    moreover have "sgn y = 1" using ylo by simp
    ultimately show ?thesis by (simp add: x_def n_def)
  qed
  ultimately have "toFixed_parsed 4 (Fin y) = Fin v \<and> 1 < v" by (simp only: v simp_thms)
  moreover have "dB_to_linear (Fin (1 / 2)) = toFixed_parsed 4 (Fin y)"
    unfolding dB_to_linear_def d Math_pow10.simps w_def [symmetric] y ..
  ultimately show ?thesis by auto
qed

section \<open>The floor of a rounded quotient\<close>

lemma rhe_ge_int: "of_int z \<le> t \<Longrightarrow> z \<le> round_half_even t"
proof -
  assume "of_int z \<le> t"
  then have "z \<le> \<lfloor>t\<rfloor>" by (simp add: le_floor_iff)
  then show ?thesis by (auto simp: round_half_even_def Let_def)
qed

lemma rhe_le_int:
  assumes "t \<le> of_int z"
  shows "round_half_even t \<le> z"
proof (cases "t = of_int z")
  case True
  then show ?thesis by (simp add: rhe_int)
next
  case False
  with assms have "t < of_int z" by simp
  then have "\<lfloor>t\<rfloor> < z" by (simp add: floor_less_iff)
  then show ?thesis by (auto simp: round_half_even_def Let_def)
qed

text \<open>The shape of the double a positive number rounds to.\<close>

lemma rnd64_pos_form:
  assumes "0 < x" "rnd64 x = Fin q"
  obtains k where "- 1022 \<le> k" "x < 2 powi (k + 1)" "- 1022 < k \<longrightarrow> 2 powi k \<le> x"
    "q = of_int (round_half_even (x / 2 powi (k - 52))) * 2 powi (k - 52)"
proof -
  define k0 where "k0 = \<lfloor>log 2 \<bar>x\<bar>\<rfloor>"
  define k where "k = max k0 (- 1022)"
  have b: "2 powi k0 \<le> x" "x < 2 powi (k0 + 1)"
    using floor_log_eq_powr_iff [of "\<bar>x\<bar>" 2 k0] assms(1)
      powr_real_of_int' [of "2::real" k0] powr_real_of_int' [of "2::real" "k0 + 1"]
    by (simp_all add: k0_def)
  have "(2::real) powi (k0 + 1) \<le> 2 powi (k + 1)"
    by (intro power_int_increasing) (simp_all add: k_def)
  with b(2) have 2: "x < 2 powi (k + 1)" by linarith
  have 3: "- 1022 < k \<longrightarrow> 2 powi k \<le> x"
  proof
    assume "- 1022 < k"
    then have "k = k0" by (simp add: k_def max_def split: if_splits)
    with b(1) show "2 powi k \<le> x" by simp
  qed
  from assms have 4: "q = of_int (round_half_even (x / 2 powi (k - 52))) * 2 powi (k - 52)"
    by (simp add: rnd64_def Let_def k_def k0_def split: if_splits)
  have 1: "- 1022 \<le> k" by (simp add: k_def)
  from 1 2 3 4 show ?thesis by (rule that)
qed

text \<open>Below \<open>2^53\<close> the whole numbers lie on the grid of every binade.\<close>

lemma nat_on_grid:
  assumes "k \<le> 52"
  obtains z :: int where "real n = of_int z * 2 powi (k - 52)"
proof -
  define d where "d = nat (52 - k)"
  have k: "k - 52 = - int d" using assms by (simp add: d_def)
  have "(2::real) powi (k - 52) = inverse (2 ^ d)"
    unfolding k by (simp add: power_int_minus)
  then have "real n = of_int (int n * 2 ^ d) * 2 powi (k - 52)" by simp
  then show ?thesis by (rule that)
qed

lemma rnd64_le_nat:
  assumes "0 \<le> x" "x \<le> real n" "n < 2 ^ 53" "rnd64 x = Fin q"
  shows "q \<le> real n"
proof (cases "x = 0")
  case True
  with assms(4) show ?thesis by (simp add: rnd64_def)
next
  case False
  with assms(1) have pos: "0 < x" by simp
  from pos assms(4) obtain k where k: "- 1022 \<le> k" "x < 2 powi (k + 1)"
    "- 1022 < k \<longrightarrow> 2 powi k \<le> x"
    "q = of_int (round_half_even (x / 2 powi (k - 52))) * 2 powi (k - 52)"
    by (rule rnd64_pos_form)
  define u where "u = (2::real) powi (k - 52)"
  have upos: "0 < u" by (simp add: u_def powi_pos)
  have n53: "real n < 2 powi 53" using assms(3)
    by (metis of_nat_less_iff of_nat_numeral of_nat_power power_int_numeral)
  have "k \<le> 52"
  proof (rule ccontr)
    assume "\<not> k \<le> 52"
    then have "53 \<le> k" by simp
    then have "(2::real) powi 53 \<le> 2 powi k"
      by (intro power_int_increasing) simp_all
    moreover from \<open>53 \<le> k\<close> k(3) have "2 powi k \<le> x" by simp
    ultimately show False using assms(2) n53 by linarith
  qed
  then obtain z :: int where z: "real n = of_int z * u"
    unfolding u_def by (rule nat_on_grid)
  have "x / u \<le> of_int z" using assms(2) upos by (simp add: z field_simps)
  then have "round_half_even (x / u) \<le> z" by (rule rhe_le_int)
  then have "of_int (round_half_even (x / u)) * u \<le> of_int z * u"
    using upos by (simp add: mult_right_mono)
  then show ?thesis using k(4) by (simp add: z u_def)
qed

lemma rnd64_ge_nat:
  assumes "real n \<le> x" "n \<le> 2 ^ 53" "rnd64 x = Fin q"
  shows "real n \<le> q"
proof (cases "n = 0")
  case True
  from assms(1) have "0 \<le> x" using order_trans [of 0 "real n" x] by simp
  then have "0 \<le> q" using assms(3) by (rule rnd64_nonneg)
  with True show ?thesis by simp
next
  case False
  then have n1: "1 \<le> real n" by simp
  with assms(1) have x1: "1 \<le> x" by linarith
  then have pos: "0 < x" by linarith
  from pos assms(3) obtain k where k: "- 1022 \<le> k" "x < 2 powi (k + 1)"
    "- 1022 < k \<longrightarrow> 2 powi k \<le> x"
    "q = of_int (round_half_even (x / 2 powi (k - 52))) * 2 powi (k - 52)"
    by (rule rnd64_pos_form)
  define u where "u = (2::real) powi (k - 52)"
  have upos: "0 < u" by (simp add: u_def powi_pos)
  have k0: "0 \<le> k"
  proof (rule ccontr)
    assume "\<not> 0 \<le> k"
    then have "k + 1 \<le> 0" by simp
    then have "(2::real) powi (k + 1) \<le> 2 powi 0"
      by (intro power_int_increasing) simp_all
    with k(2) x1 show False by simp
  qed
  with k(3) have lo: "2 powi k \<le> x" by simp
  show ?thesis
  proof (cases "k \<le> 52")
    case True
    then obtain z :: int where z: "real n = of_int z * u"
      unfolding u_def by (rule nat_on_grid)
    have "of_int z \<le> x / u" using assms(1) upos by (simp add: z field_simps)
    then have "z \<le> round_half_even (x / u)" by (rule rhe_ge_int)
    then have "of_int z * u \<le> of_int (round_half_even (x / u)) * u"
      using upos by (simp add: mult_right_mono)
    then show ?thesis using k(4) by (simp add: z u_def)
  next
    case False
    then have k53: "53 \<le> k" by simp
    have ku: "2 powi k = 2 powi 52 * u"
    proof -
      have "(2::real) powi k = 2 powi (52 + (k - 52))" by simp
      also have "\<dots> = 2 powi 52 * 2 powi (k - 52)" by (rule power_int_add) simp
      finally show ?thesis by (simp add: u_def)
    qed
    have "of_int (2 ^ 52) \<le> x / u" using lo upos by (simp add: ku field_simps)
    then have "2 ^ 52 \<le> round_half_even (x / u)" by (rule rhe_ge_int)
    then have "of_int (2 ^ 52) * u \<le> of_int (round_half_even (x / u)) * u"
      using upos by (simp add: mult_right_mono)
    then have "2 powi k \<le> q" using k(4) by (simp add: ku u_def)
    moreover have "(2::real) powi 53 \<le> 2 powi k"
      using k53 by (intro power_int_increasing) simp_all
    moreover have "real n \<le> 2 powi 53" using assms(2)
      by (metis of_nat_le_iff of_nat_numeral of_nat_power power_int_numeral)
    ultimately show ?thesis by linarith
  qed
qed

text \<open>The floor of a rounded quotient is the floor of the exact one, or one more.\<close>

lemma floor_rnd64:
  assumes "0 \<le> x" "rnd64 x = Fin q" "q < 2 ^ 32"
  shows "\<lfloor>x\<rfloor> \<le> \<lfloor>q\<rfloor> \<and> \<lfloor>q\<rfloor> \<le> \<lfloor>x\<rfloor> + 1"
proof -
  have xs: "x < 2 ^ 32"
  proof (rule ccontr)
    assume "\<not> x < 2 ^ 32"
    then have "real (2 ^ 32) \<le> x" by simp
    then have "real (2 ^ 32) \<le> q" by (rule rnd64_ge_nat) (simp_all add: assms(2))
    with assms(3) show False by simp
  qed
  define f where "f = nat \<lfloor>x\<rfloor>"
  have f: "int f = \<lfloor>x\<rfloor>" using assms(1) by (simp add: f_def)
  have fx: "real f \<le> x" "x \<le> real (f + 1)"
    using f by linarith+
  have fs: "f < 2 ^ 32"
  proof -
    from fx(1) xs have "real f < 2 ^ 32" by linarith
    then show ?thesis by (metis of_nat_less_iff of_nat_numeral of_nat_power)
  qed
  have "real f \<le> q" using fx(1) _ assms(2) by (rule rnd64_ge_nat) (use fs in simp)
  then have 1: "\<lfloor>x\<rfloor> \<le> \<lfloor>q\<rfloor>" using f by (simp add: le_floor_iff flip: f)
  have "q \<le> real (f + 1)" using assms(1) fx(2) _ assms(2) by (rule rnd64_le_nat) (use fs in simp)
  then have 2: "\<lfloor>q\<rfloor> \<le> \<lfloor>x\<rfloor> + 1" unfolding f [symmetric] by linarith
  from 1 2 show ?thesis ..
qed


lemma rnd64_three_tenths: "rnd64 (3 / 10) = Fin (5404319552844595 / 18014398509481984)"
  using rnd64_eval [of "- 2" "3 / 10" 5404319552844595] by (simp add: power_int_minus)

lemma rnd64_seventeen_tenths: "rnd64 (17 / 10) = Fin (7656119366529843 / 4503599627370496)"
  using rnd64_eval [of 0 "17 / 10" 7656119366529843] by (simp add: power_int_minus)

lemma parse_three_tenths: "parseFloat (trim (''0.300000'' @ [CHR 0x0A])) = lit (3 / 10)"
  by (simp add: parseFloat_def trim_def is_space_def is_digit_def Let_def digits_val_def
      exponent_part_def lit_def)

lemma parse_seventeen_tenths: "parseFloat (trim (''1.700000'' @ [CHR 0x0A])) = lit (17 / 10)"
  by (simp add: parseFloat_def trim_def is_space_def is_digit_def Let_def digits_val_def
      exponent_part_def lit_def)

lemma div_three_tenths:
  "js_div (lit (3 / 10)) interval = Fin (6755399441055743 / 2251799813685248)"
  using rnd64_eval [of 1 "5404319552844595 / 18014398509481984 / interval_value" 6755399441055743]
  by (simp add: lit_def rnd64_three_tenths interval_Fin interval_value_def power_int_minus)

lemma div_seventeen_tenths: "js_div (lit (17 / 10)) interval = Fin 17"
  using rnd64_eval [of 4 "7656119366529843 / 4503599627370496 / interval_value" 4785074604081152]
  by (simp add: lit_def rnd64_seventeen_tenths interval_Fin interval_value_def power_int_minus)

lemma analyzeAudio_three_tenths:
  "analyzeAudio (env_short ''0.300000'') ''/app/temp/123.mp3'' =
     Some (Inr \<lparr>assetId = ''123'', duration = lit (3 / 10), interval_of = interval, samples = 2,
                data = map (window (env_short ''0.300000'')) [0 ..< 2]\<rparr>)"
proof -
  have "bounds (Fin (of_int 2)) (nat \<lceil>(of_int 2 :: real)\<rceil>)" by (rule bounds_Fin)
  then have "bounds (Math_floor (js_div (parseFloat (trim (''0.300000'' @ [CHR 0x0A]))) interval)) 2"
    using parse_three_tenths div_three_tenths by simp
  from analyzeAudio_bounds [OF _ this, of "env_short ''0.300000''" "''/app/temp/123.mp3''"]
  show ?thesis using parse_three_tenths by (simp add: env_short_def basename_def)
qed

lemma analyzeAudio_seventeen_tenths:
  "analyzeAudio (env_short ''1.700000'') ''/app/temp/123.mp3'' =
     Some (Inr \<lparr>assetId = ''123'', duration = lit (17 / 10), interval_of = interval, samples = 17,
                data = map (window (env_short ''1.700000'')) [0 ..< 17]\<rparr>)"
proof -
  have "bounds (Fin (of_int 17)) (nat \<lceil>(of_int 17 :: real)\<rceil>)" by (rule bounds_Fin)
  then have "bounds (Math_floor (js_div (parseFloat (trim (''1.700000'' @ [CHR 0x0A]))) interval)) 17"
    using parse_seventeen_tenths div_seventeen_tenths by simp
  from analyzeAudio_bounds [OF _ this, of "env_short ''1.700000''" "''/app/temp/123.mp3''"]
  show ?thesis using parse_seventeen_tenths by (simp add: env_short_def basename_def)
qed

section \<open>The number of windows\<close>

text \<open>
  C1, as the code has it. When the duration probe prints a duration \<open>D \<ge> 0\<close> and \<open>q\<close> is
  the quotient \<open>D / 0.1\<close> the program computes in doubles (below \<open>2^32\<close>, as many samples
  as a JavaScript array can hold), \<open>analyzeAudio\<close> returns a result whose \<open>data\<close> has
  exactly \<open>\<lfloor>q\<rfloor>\<close> entries, the samples of the windows \<open>0, \<dots>, \<lfloor>q\<rfloor> - 1\<close> in this order,
  and whose \<open>samples\<close> field is the length of \<open>data\<close>. This holds whatever the \<open>ffmpeg\<close>
  calls of the windows answer: a failing window changes values, never the number of
  entries. The count \<open>\<lfloor>q\<rfloor>\<close> is the floor of the exact quotient of the double \<open>D\<close> by the
  double nearest to \<open>0.1\<close>, or one more than it.
\<close>

theorem analyzeAudio_window_count:
  assumes "probe e = Inr out" and "parseFloat (trim out) = Fin D" and "0 \<le> D"
    and "js_div (Fin D) interval = Fin q" and "q < 2 ^ 32"
  shows "\<exists>r. analyzeAudio e p = Some (Inr r) \<and> int (length (data r)) = \<lfloor>q\<rfloor> \<and>
             samples r = length (data r) \<and> data r = map (window e) [0 ..< nat \<lfloor>q\<rfloor>] \<and>
             \<lfloor>D / interval_value\<rfloor> \<le> \<lfloor>q\<rfloor> \<and> \<lfloor>q\<rfloor> \<le> \<lfloor>D / interval_value\<rfloor> + 1"
proof -
  from assms(4) have rq: "rnd64 (D / interval_value) = Fin q"
    using interval_value_pos by (simp add: interval_Fin)
  have x0: "0 \<le> D / interval_value"
    using assms(3) interval_value_pos by simp
  from x0 rq have q: "0 \<le> q" by (rule rnd64_nonneg)
  from x0 rq assms(5)
  have fl: "\<lfloor>D / interval_value\<rfloor> \<le> \<lfloor>q\<rfloor> \<and> \<lfloor>q\<rfloor> \<le> \<lfloor>D / interval_value\<rfloor> + 1"
    by (rule floor_rnd64)
  have "bounds (Fin (of_int \<lfloor>q\<rfloor>)) (nat \<lceil>(of_int \<lfloor>q\<rfloor> :: real)\<rceil>)"
    by (rule bounds_Fin)
  then have "bounds (Math_floor (js_div (parseFloat (trim out)) interval)) (nat \<lfloor>q\<rfloor>)"
    by (simp add: assms(2,4))
  from analyzeAudio_bounds [OF assms(1) this, of p] q fl show ?thesis by simp
qed

text \<open>The run with a probed duration of 30 seconds has 300 windows.\<close>

theorem analyzeAudio_window_count_witness:
  "\<exists>r. analyzeAudio env30 ''/app/temp/123.mp3'' = Some (Inr r) \<and> int (length (data r)) = 300 \<and>
       samples r = length (data r) \<and> data r = map (window env30) [0 ..< 300]"
proof -
  have 1: "probe env30 = Inr (''30.000000'' @ [CHR 0x0A])" by (simp add: env30_def)
  have 2: "(0::real) \<le> 30" "(300::real) < 2 ^ 32" by simp_all
  from analyzeAudio_window_count [OF 1 parse_30 2(1) div_30_interval 2(2), of "''/app/temp/123.mp3''"]
  obtain r where "analyzeAudio env30 ''/app/temp/123.mp3'' = Some (Inr r)"
    "int (length (data r)) = \<lfloor>300::real\<rfloor>" "samples r = length (data r)"
    "data r = map (window env30) [0 ..< nat \<lfloor>300::real\<rfloor>]"
    by blast
  then show ?thesis by simp
qed

text \<open>
  C1 as stated, with \<open>N = floor(D / 0.1)\<close> taken exactly, fails. For the probe output
  \<open>0.300000\<close> the quotient of the doubles is rounded to \<open>2.9999999999999996\<close> and the
  result has 2 samples, where the decimals give \<open>floor(0.3 / 0.1) = 3\<close>: a full window
  is left out. For the probe output \<open>1.700000\<close> the quotient is rounded up to 17 and the
  result has 17 samples, where the exact quotient of the double \<open>1.7\<close> by \<open>0.1\<close>, or by
  the double nearest to it, has the floor 16.
\<close>

theorem window_count_is_not_exact_floor:
  "probe (env_short ''0.300000'') = Inr (''0.300000'' @ [CHR 0x0A]) \<and>
   parseFloat (trim (''0.300000'' @ [CHR 0x0A])) = lit (3 / 10) \<and>
   \<lfloor>(3 / 10 :: real) / (1 / 10)\<rfloor> = 3 \<and>
   analyzeAudio (env_short ''0.300000'') ''/app/temp/123.mp3'' =
     Some (Inr \<lparr>assetId = ''123'', duration = lit (3 / 10), interval_of = interval, samples = 2,
                data = map (window (env_short ''0.300000'')) [0 ..< 2]\<rparr>) \<and>
   probe (env_short ''1.700000'') = Inr (''1.700000'' @ [CHR 0x0A]) \<and>
   parseFloat (trim (''1.700000'' @ [CHR 0x0A])) = lit (17 / 10) \<and>
   lit (17 / 10) = Fin (7656119366529843 / 4503599627370496) \<and>
   \<lfloor>(7656119366529843 / 4503599627370496 :: real) / interval_value\<rfloor> = 16 \<and>
   \<lfloor>(7656119366529843 / 4503599627370496 :: real) / (1 / 10)\<rfloor> = 16 \<and>
   analyzeAudio (env_short ''1.700000'') ''/app/temp/123.mp3'' =
     Some (Inr \<lparr>assetId = ''123'', duration = lit (17 / 10), interval_of = interval, samples = 17,
                data = map (window (env_short ''1.700000'')) [0 ..< 17]\<rparr>)"
proof -
  have "\<lfloor>(3 / 10 :: real) / (1 / 10)\<rfloor> = 3" by simp
  moreover have "\<lfloor>(7656119366529843 / 4503599627370496 :: real) / interval_value\<rfloor> = 16"
    by (simp add: interval_value_def floor_eq_iff)
  moreover have "\<lfloor>(7656119366529843 / 4503599627370496 :: real) / (1 / 10)\<rfloor> = 16"
    by (simp add: floor_eq_iff)
  moreover have "lit (17 / 10) = Fin (7656119366529843 / 4503599627370496)"
    by (simp add: lit_def rnd64_seventeen_tenths)
  moreover have "probe (env_short ''0.300000'') = Inr (''0.300000'' @ [CHR 0x0A])"
    "probe (env_short ''1.700000'') = Inr (''1.700000'' @ [CHR 0x0A])"
    by (simp_all add: env_short_def)
  ultimately show ?thesis
    using parse_three_tenths parse_seventeen_tenths analyzeAudio_three_tenths
      analyzeAudio_seventeen_tenths
    by (simp only: simp_thms)
qed

section \<open>The times of the samples\<close>

lemma time_window: "time (window e k) = toFixed_parsed 2 (js_mul (Fin (real k)) interval)"
  by (simp add: window_def analyzeSample_def Let_def split: sum.split prod.split)

lemma window_time_value:
  assumes "k \<le> 2 ^ 32"
  shows "toFixed_parsed 2 (js_mul (Fin (real k)) interval) = rnd64 (real k / 10)"
proof (cases "k = 0")
  case True
  then show ?thesis by (simp add: interval_Fin rnd64_def)
next
  case False
  then have k1: "1 \<le> real k" by simp
  have k2: "real k \<le> 4294967296" using assms by simp
  define x where "x = real k * interval_value"
  have xlo: "real k / 10 \<le> x" and xhi: "x \<le> real k / 10 + real k / 180143985094819840"
    by (simp_all add: x_def interval_value_def field_simps)
  have "1 / 1048576 \<le> x" "x \<le> 2 ^ 32" using xlo xhi k1 k2 by simp_all
  then obtain y where y: "rnd64 x = Fin y" and err: "x - x / 9007199254740992 \<le> y"
    "y \<le> x + x / 9007199254740992"
    by (rule rnd64_mid)
  have near: "\<bar>y - real k / 10\<bar> < 1 / 1000"
    using err xlo xhi k1 k2 by linarith
  then have ypos: "0 < y" and "\<bar>y\<bar> < 1000000000000000000000"
    using k1 k2 by linarith+
  then have ysmall: "\<bar>y\<bar> < 10 ^ 21" by simp
  have "\<lfloor>y * 10\<^sup>2 + 1 / 2\<rfloor> = 10 * int k"
  proof -
    have "real_of_int (10 * int k) \<le> y * 10\<^sup>2 + 1 / 2"
      "y * 10\<^sup>2 + 1 / 2 < real_of_int (10 * int k) + 1"
      using near by (simp_all, linarith+)
    then show ?thesis by (simp only: floor_eq_iff)
  qed
  then have "round_half_up (\<bar>y\<bar> * 10 ^ 2) = 10 * int k"
    using ypos by (simp add: round_half_up_def)
  then have "toFixed_parsed 2 (Fin y) = rnd64 (real k / 10)"
    using ypos ysmall by simp
  then show ?thesis by (simp add: interval_Fin x_def [symmetric] y)
qed

lemma tenths_increase:
  assumes "j < k" "k \<le> 2 ^ 32"
  shows "js_less (rnd64 (real j / 10)) (rnd64 (real k / 10))"
proof -
  have k1: "real j + 1 \<le> real k" using assms(1) by linarith
  have k2: "real k \<le> 4294967296" using assms(2) by simp
  define a where "a = real k / 10"
  have a: "real k = 10 * a" by (simp add: a_def)
  have "1 / 1048576 \<le> a" "a \<le> 2 ^ 32" using k1 k2 by (simp_all add: a_def)
  then obtain y where y: "rnd64 a = Fin y"
      and erry: "a - a / 9007199254740992 \<le> y" "y \<le> a + a / 9007199254740992"
    by (rule rnd64_mid)
  show ?thesis
  proof (cases "j = 0")
    case True
    have "0 < y" using erry k1 unfolding a by linarith
    with True y show ?thesis by (simp add: rnd64_def a_def)
  next
    case False
    then have j1: "1 \<le> real j" by simp
    define b where "b = real j / 10"
    have b: "real j = 10 * b" by (simp add: b_def)
    have "1 / 1048576 \<le> b" "b \<le> 2 ^ 32" using j1 k1 k2 by (simp_all add: b_def)
    then obtain z where z: "rnd64 b = Fin z"
      and errz: "b - b / 9007199254740992 \<le> z" "z \<le> b + b / 9007199254740992"
      by (rule rnd64_mid)
    have "z < y" using erry errz k1 k2 j1 unfolding a b by linarith
    with y z show ?thesis by (simp add: a_def b_def)
  qed
qed

text \<open>
  C2. In a result of \<open>analyzeAudio\<close> the sample at position \<open>i\<close> has as its time the
  double nearest to \<open>i / 10\<close>, that is \<open>i * 0.1\<close> rounded to two decimals, and the times
  increase strictly along \<open>data\<close>. The order does not depend on the order in which the
  analyses of a batch complete: \<open>Promise.all\<close> keeps the order of the calls. The bound on
  the length is the one every JavaScript array obeys.
\<close>

theorem sample_times:
  assumes "analyzeAudio e p = Some (Inr r)" and "length (data r) \<le> 2 ^ 32"
  shows "(\<forall>i < length (data r). time (data r ! i) = lit (real i / 10)) \<and>
         sorted_wrt js_less (map time (data r))"
proof -
  from assms(1) obtain out N where
    r: "r = \<lparr>assetId = basename p ''.mp3'', duration = parseFloat (trim out),
              interval_of = interval, samples = N, data = map (window e) [0 ..< N]\<rparr>"
    by (rule analyzeAudio_Inr)
  from assms(2) have N: "N \<le> 2 ^ 32" by (simp add: r)
  have t: "time (data r ! i) = lit (real i / 10)" if "i < N" for i
    using that N by (simp add: r time_window window_time_value lit_def)
  have "js_less (map time (data r) ! i) (map time (data r) ! j)" if "i < j" "j < N" for i j
  proof -
    from that have "i < N" by simp
    with that N t [of i] t [of j] tenths_increase [of i j] show ?thesis
      by (simp add: r lit_def)
  qed
  then have "sorted_wrt js_less (map time (data r))"
    by (simp add: sorted_wrt_iff_nth_less r)
  with t show ?thesis by (simp add: r)
qed

text \<open>The times in the 30 second run.\<close>

theorem sample_times_witness:
  "time (data result30 ! 7) = lit (7 / 10) \<and> sorted_wrt js_less (map time (data result30))"
proof -
  note h = result30_returned
  have l: "length (data result30) \<le> 2 ^ 32" by (simp add: result30_def)
  from sample_times [OF h l] have
    a: "\<forall>i < length (data result30). time (data result30 ! i) = lit (real i / 10)"
    and b: "sorted_wrt js_less (map time (data result30))" by blast+
  have "(7::nat) < length (data result30)" by (simp add: result30_def)
  with a have "time (data result30 ! 7) = lit (real (7::nat) / 10)" by blast
  with b show ?thesis by simp
qed

section \<open>Amplitude and peak\<close>

text \<open>
  C3. For every output of \<open>ffmpeg\<close>, the amplitude \<open>analyzeSample\<close> returns is
  \<open>10^(rmsDb/20)\<close> and the peak is \<open>10^(peakDb/20)\<close>, computed in doubles from the
  levels read from the output and rounded to four decimals. A level of -20 dB gives the
  amplitude \<open>0.1\<close>. In a run whose probe reports 30 seconds and whose windows all report
  -20 dB RMS and -10 dB peak, the result has 300 samples, every amplitude is \<open>0.1\<close> and
  every peak is \<open>0.3162\<close>.
\<close>

theorem amplitude_and_peak_from_dB:
  "amplitude (analyzeSample (Inr out) rs t) =
     toFixed_parsed 4 (Math_pow10 (js_div (rmsDb out) (Fin 20))) \<and>
   peak (analyzeSample (Inr out) rs t) =
     toFixed_parsed 4 (Math_pow10 (js_div (peakDb out) (Fin 20))) \<and>
   (rmsDb out = Fin (- 20) \<longrightarrow> amplitude (analyzeSample (Inr out) rs t) = lit (1 / 10)) \<and>
   (probe e = Inr dout \<and> parseFloat (trim dout) = Fin 30 \<and>
    (\<forall>k. \<exists>out. ffmpeg e k = Inr out \<and> rmsDb out = Fin (- 20) \<and> peakDb out = Fin (- 10)) \<longrightarrow>
    (\<exists>r. analyzeAudio e p = Some (Inr r) \<and> samples r = 300 \<and>
       (\<forall>s \<in> set (data r). amplitude s = lit (1 / 10) \<and> peak s = lit (3162 / 10000))))"
proof -
  have a: "amplitude (analyzeSample (Inr out) rs t) =
     toFixed_parsed 4 (Math_pow10 (js_div (rmsDb out) (Fin 20)))"
    by (simp only: amplitude_dB dB_to_linear_def)
  have b: "peak (analyzeSample (Inr out) rs t) =
     toFixed_parsed 4 (Math_pow10 (js_div (peakDb out) (Fin 20)))"
    by (simp only: peak_dB dB_to_linear_def)
  have c: "amplitude (analyzeSample (Inr out) rs t) = lit (1 / 10)" if "rmsDb out = Fin (- 20)"
    using that by (simp only: amplitude_dB dB_to_linear_m20)
  have d: "\<exists>r. analyzeAudio e p = Some (Inr r) \<and> samples r = 300 \<and>
       (\<forall>s \<in> set (data r). amplitude s = lit (1 / 10) \<and> peak s = lit (3162 / 10000))"
    if pr: "probe e = Inr dout" and du: "parseFloat (trim dout) = Fin 30"
      and ff: "\<forall>k. \<exists>out. ffmpeg e k = Inr out \<and> rmsDb out = Fin (- 20) \<and> peakDb out = Fin (- 10)"
  proof -
    have "bounds (Fin (of_int 300)) (nat \<lceil>(of_int 300 :: real)\<rceil>)"
      by (rule bounds_Fin)
    then have "bounds (Math_floor (js_div (parseFloat (trim dout)) interval)) 300"
      using du div_30_interval by simp
    from analyzeAudio_bounds [OF pr this, of p]
    have r: "analyzeAudio e p =
        Some (Inr \<lparr>assetId = basename p ''.mp3'', duration = parseFloat (trim dout),
                interval_of = interval, samples = 300, data = map (window e) [0 ..< 300]\<rparr>)" .
    have "amplitude (window e k) = lit (1 / 10) \<and> peak (window e k) = lit (3162 / 10000)" for k
    proof -
      from ff obtain out where o: "ffmpeg e k = Inr out" "rmsDb out = Fin (- 20)"
        "peakDb out = Fin (- 10)" by blast
      then show ?thesis
        by (simp only: window_def amplitude_dB peak_dB dB_to_linear_m20 dB_to_linear_m10 simp_thms)
    qed
    with r show ?thesis by simp
  qed
  from a b c d show ?thesis by blast
qed

text \<open>The run of the end-to-end test.\<close>

theorem amplitude_and_peak_from_dB_witness:
  "amplitude (analyzeSample (Inr stdout_fixed) (1 / 2, 1 / 2, 1 / 2) (Fin 0)) = lit (1 / 10) \<and>
   (\<exists>r. analyzeAudio env30 ''/app/temp/123.mp3'' = Some (Inr r) \<and> samples r = 300 \<and>
       amplitude (data r ! 17) = lit (1 / 10) \<and> peak (data r ! 17) = lit (3162 / 10000))"
proof -
  note t = amplitude_and_peak_from_dB [of stdout_fixed "(1 / 2, 1 / 2, 1 / 2)" "Fin 0" env30
      "''30.000000'' @ [CHR 0x0A]" "''/app/temp/123.mp3''"]
  have h1: "rmsDb stdout_fixed = Fin (- 20)" by (rule levels_fixed)
  have h2: "probe env30 = Inr (''30.000000'' @ [CHR 0x0A]) \<and>
      parseFloat (trim (''30.000000'' @ [CHR 0x0A])) = Fin 30 \<and>
      (\<forall>k. \<exists>out. ffmpeg env30 k = Inr out \<and> rmsDb out = Fin (- 20) \<and> peakDb out = Fin (- 10))"
    using parse_30 levels_fixed by (simp add: env30_def)
  from t h1 have 1: "amplitude (analyzeSample (Inr stdout_fixed) (1 / 2, 1 / 2, 1 / 2) (Fin 0)) = lit (1 / 10)"
    by blast
  from t h2 obtain r where r: "analyzeAudio env30 ''/app/temp/123.mp3'' = Some (Inr r)"
    "samples r = 300"
    "\<forall>s \<in> set (data r). amplitude s = lit (1 / 10) \<and> peak s = lit (3162 / 10000)"
    by blast
  from r(1) have "r = result30" by (simp add: result30_returned)
  then have "data r ! 17 \<in> set (data r)" by (simp add: result30_def)
  with r(3) have "amplitude (data r ! 17) = lit (1 / 10) \<and> peak (data r ! 17) = lit (3162 / 10000)"
    by blast
  with 1 r(1,2) show ?thesis by blast
qed

section \<open>Levels that are missing or not numbers\<close>

text \<open>
  When the output has no match for a level, the floor of -60 dB is used and the value is
  \<open>0.001\<close>.
\<close>

lemma missing_levels_floor:
  "match_level ''RMS level dB: '' out = None \<Longrightarrow>
     amplitude (analyzeSample (Inr out) rs t) = lit (1 / 1000)"
  "match_level ''Peak level dB: '' out = None \<Longrightarrow>
     peak (analyzeSample (Inr out) rs t) = lit (1 / 1000)"
  by (simp_all only: amplitude_dB peak_dB rmsDb_def peakDb_def option.case dB_to_linear_m60)

text \<open>
  C4 at the output of a silent window. \<open>ffmpeg\<close> prints the level of digital silence as
  \<open>-inf\<close>. The character class of the regular expression accepts the lone minus sign,
  so there is a match, \<open>parseFloat\<close> of the group \<open>-\<close> is \<open>NaN\<close>, the floor of -60 dB is
  not substituted, and amplitude and peak are \<open>NaN\<close> instead of \<open>0.001\<close>.
\<close>

theorem silent_window_is_NaN:
  "match_level ''RMS level dB: '' stdout_silent = Some ''-'' \<and>
   match_level ''Peak level dB: '' stdout_silent = Some ''-'' \<and>
   parseFloat ''-'' = NaN \<and>
   amplitude (analyzeSample (Inr stdout_silent) rs t) = NaN \<and>
   peak (analyzeSample (Inr stdout_silent) rs t) = NaN"
proof -
  have "match_level ''RMS level dB: '' stdout_silent = Some ''-''"
    "match_level ''Peak level dB: '' stdout_silent = Some ''-''"
    by (simp_all add: stdout_silent_def in_class_def is_digit_def Let_def)
  moreover have "amplitude (analyzeSample (Inr stdout_silent) rs t) = NaN"
    "peak (analyzeSample (Inr stdout_silent) rs t) = NaN"
    by (simp_all only: amplitude_dB peak_dB levels_silent dB_to_linear_NaN)
  ultimately show ?thesis using parse_minus by blast
qed

section \<open>The range of the values\<close>

text \<open>
  C8 at the outputs of windows above full scale. Nothing clamps the linear values: a
  peak level of 0.5 dB gives a peak above 1, and levels of 20 dB give the amplitude and
  the peak 10, outside the range from 0 to 1 that the comment in \<open>analyzeSample\<close>
  announces.
\<close>

theorem levels_above_full_scale_exceed_one:
  "(\<exists>v. peak (analyzeSample (Inr stdout_clipped) rs t) = Fin v \<and> 1 < v) \<and>
   amplitude (analyzeSample (Inr stdout_loud) rs t) = Fin 10 \<and>
   peak (analyzeSample (Inr stdout_loud) rs t) = Fin 10"
proof -
  have "\<exists>v. peak (analyzeSample (Inr stdout_clipped) rs t) = Fin v \<and> 1 < v"
    using dB_to_linear_half by (simp only: peak_dB peakDb_clipped)
  moreover have "amplitude (analyzeSample (Inr stdout_loud) rs t) = Fin 10 \<and>
      peak (analyzeSample (Inr stdout_loud) rs t) = Fin 10"
    by (simp only: amplitude_dB peak_dB levels_loud dB_to_linear_20 simp_thms)
  ultimately show ?thesis by blast
qed

section \<open>A failing window\<close>

lemma window_failed:
  "window (e\<lparr>ffmpeg := (ffmpeg e)(k := Inl err)\<rparr>) k =
     \<lparr>time = time (window e k), amplitude = Fin 0, bass = Fin 0, mid = Fin 0,
      high = Fin 0, peak = Fin 0\<rparr>"
  by (simp add: window_def analyzeSample_def Let_def split: sum.split prod.split)

lemma window_other:
  "j \<noteq> k \<Longrightarrow> window (e\<lparr>ffmpeg := (ffmpeg e)(k := x)\<rparr>) j = window e j"
  by (simp add: window_def)

text \<open>
  C5. When the \<open>ffmpeg\<close> command of a window fails, \<open>analyzeSample\<close> returns the sample
  with amplitude, bass, mid, high and peak all 0 at the time of the window rounded to two
  decimals; nothing is thrown. In a run of \<open>analyzeAudio\<close>, making the command of window
  \<open>k\<close> fail leaves the number of samples and every other sample as they were, and the
  sample of window \<open>k\<close> becomes the zero sample at the same time.
\<close>

theorem window_failure_is_local:
  assumes "analyzeAudio e p = Some (Inr r)"
  shows "analyzeSample (Inl err) rs t =
           \<lparr>time = toFixed_parsed 2 t, amplitude = Fin 0, bass = Fin 0, mid = Fin 0,
            high = Fin 0, peak = Fin 0\<rparr> \<and>
         (\<exists>r'. analyzeAudio (e\<lparr>ffmpeg := (ffmpeg e)(k := Inl err)\<rparr>) p = Some (Inr r') \<and>
            samples r' = samples r \<and> length (data r') = length (data r) \<and>
            (\<forall>j < length (data r). j \<noteq> k \<longrightarrow> data r' ! j = data r ! j) \<and>
            (k < length (data r) \<longrightarrow>
               data r' ! k = \<lparr>time = time (data r ! k), amplitude = Fin 0, bass = Fin 0,
                              mid = Fin 0, high = Fin 0, peak = Fin 0\<rparr>))"
proof -
  define e' where "e' = e\<lparr>ffmpeg := (ffmpeg e)(k := Inl err)\<rparr>"
  from assms obtain out N where out: "probe e = Inr out"
    and b: "bounds (Math_floor (js_div (parseFloat (trim out)) interval)) N"
    and r: "r = \<lparr>assetId = basename p ''.mp3'', duration = parseFloat (trim out),
              interval_of = interval, samples = N, data = map (window e) [0 ..< N]\<rparr>"
    by (rule analyzeAudio_Inr)
  have "probe e' = Inr out" by (simp add: e'_def out)
  from analyzeAudio_bounds [OF this b, of p]
  have r': "analyzeAudio e' p =
      Some (Inr \<lparr>assetId = basename p ''.mp3'', duration = parseFloat (trim out),
              interval_of = interval, samples = N, data = map (window e') [0 ..< N]\<rparr>)" .
  have other: "\<forall>j < N. j \<noteq> k \<longrightarrow> window e' j = window e j"
    by (simp add: e'_def window_other)
  have failed: "window e' k = \<lparr>time = time (window e k), amplitude = Fin 0, bass = Fin 0,
      mid = Fin 0, high = Fin 0, peak = Fin 0\<rparr>"
    unfolding e'_def by (rule window_failed)
  have first: "analyzeSample (Inl err) rs t =
           \<lparr>time = toFixed_parsed 2 t, amplitude = Fin 0, bass = Fin 0, mid = Fin 0,
            high = Fin 0, peak = Fin 0\<rparr>"
    by (simp add: analyzeSample_def)
  show ?thesis
    unfolding e'_def [symmetric] using first r' other failed by (simp add: r)
qed

text \<open>The 30 second run with a failing fourth window.\<close>

theorem window_failure_is_local_witness:
  "\<exists>r'. analyzeAudio (env30\<lparr>ffmpeg := (ffmpeg env30)(3 := Inl (Error ''Command failed''))\<rparr>)
          ''/app/temp/123.mp3'' = Some (Inr r') \<and>
        samples r' = 300 \<and> length (data r') = 300 \<and>
        data r' ! 4 = window env30 4 \<and>
        data r' ! 3 = \<lparr>time = time (window env30 3), amplitude = Fin 0, bass = Fin 0,
                              mid = Fin 0, high = Fin 0, peak = Fin 0\<rparr>"
proof -
  note h = result30_returned
  from window_failure_is_local [OF h, of "Error ''Command failed''" "(0, 0, 0)" NaN 3]
  obtain r' where 1: "analyzeAudio (env30\<lparr>ffmpeg := (ffmpeg env30)(3 := Inl (Error ''Command failed''))\<rparr>)
          ''/app/temp/123.mp3'' = Some (Inr r')"
    and 2: "samples r' = samples result30" "length (data r') = length (data result30)"
    and 3: "\<forall>j < length (data result30). j \<noteq> 3 \<longrightarrow> data r' ! j = data result30 ! j"
    and 4: "3 < length (data result30) \<longrightarrow>
               data r' ! 3 = \<lparr>time = time (data result30 ! 3), amplitude = Fin 0, bass = Fin 0,
                              mid = Fin 0, high = Fin 0, peak = Fin 0\<rparr>"
    by blast
  have len: "length (data result30) = 300" "samples result30 = 300"
    by (simp_all add: result30_def)
  have n3: "data result30 ! 3 = window env30 3" and n4: "data result30 ! 4 = window env30 4"
    by (simp_all add: result30_def)
  from 3 len have "data r' ! 4 = data result30 ! 4" by simp
  with 1 2 4 len n3 n4 show ?thesis by auto
qed

section \<open>When the sampler aborts\<close>

text \<open>
  C6, as the code has it. \<open>analyzeAudio\<close> throws exactly when the \<open>ffprobe\<close> command fails,
  and then the error is \<open>Audio analysis failed:\<close> followed by the message of the
  command's error. No other condition makes the call throw.
\<close>

theorem analyzeAudio_aborts_iff_probe_fails:
  "analyzeAudio e p = Some (Inl err) \<longleftrightarrow>
     (\<exists>m. probe e = Inl m \<and> err = Error (''Audio analysis failed: '' @ message m))"
  by (auto simp: analyzeAudio_def Let_def split: sum.splits option.splits)

text \<open>A failing probe aborts the call.\<close>

theorem analyzeAudio_aborts_witness:
  "analyzeAudio env_probe_fails ''/app/temp/123.mp3'' =
     Some (Inl (Error ''Audio analysis failed: Command failed: ffprobe''))"
  using analyzeAudio_aborts_iff_probe_fails [of env_probe_fails "''/app/temp/123.mp3''"
      "Error ''Audio analysis failed: Command failed: ffprobe''"]
  by (simp add: env_probe_fails_def)

text \<open>
  C6 as stated fails for a probe output that is not a number: \<open>parseFloat\<close> yields
  \<open>NaN\<close>, nothing tests for it, the loop is not entered, and the call returns a result
  with no samples instead of throwing.
\<close>

theorem unparseable_duration_no_abort:
  "probe env_na = Inr (''N/A'' @ [CHR 0x0A]) \<and> parseFloat (trim (''N/A'' @ [CHR 0x0A])) = NaN \<and>
   analyzeAudio env_na ''/app/temp/123.mp3'' =
     Some (Inr \<lparr>assetId = ''123'', duration = NaN, interval_of = interval, samples = 0, data = []\<rparr>)"
  using analyzeAudio_bounds [of env_na "''N/A'' @ [CHR 0x0A]" 0 "''/app/temp/123.mp3''"] parse_na
  by (simp add: env_na_def bounds_NaN basename_def)

section \<open>Batches of ten\<close>
















section \<open>The cache\<close>

lemma pipeline_keeps_entry:
  assumes "pipeline w c b = Some (r, c')" and "a \<noteq> b"
  shows "c' a = c a"
  using assms
  by (auto simp: pipeline_def Let_def split: option.splits sum.splits)

lemma pipeline_fresh_stores:
  assumes "pipeline w c a = Some (Ok_json False d, c')"
  shows "c' a = Some d"
  using assms
  by (auto simp: pipeline_def Let_def split: option.splits sum.splits)

text \<open>An asset that is cached and not pending stays so, with the same entry.\<close>

lemma server_step_keeps_entry:
  assumes "server_step s ev = Some (r, s')"
    and "store s a = Some d" and "a \<notin> fst ` set (pending s)"
  shows "store s' a = Some d \<and> a \<notin> fst ` set (pending s')"
proof (cases ev)
  case (Request b w)
  show ?thesis
  proof (cases "store s b")
    case None
    with assms(2) have "a \<noteq> b" by auto
    with assms Request None show ?thesis
      by (auto simp: server_step_def)
  next
    case (Some d')
    with assms Request show ?thesis
      by (auto simp: server_step_def)
  qed
next
  case (Finish n)
  with assms(1) have n: "n < length (pending s)"
    by (auto simp: server_step_def split: if_splits)
  define b where "b = fst (pending s ! n)"
  define w where "w = snd (pending s ! n)"
  from n have "pending s ! n \<in> set (pending s)" by simp
  then have "b \<in> fst ` set (pending s)" unfolding b_def by (rule imageI)
  with assms(3) have ab: "a \<noteq> b" by auto
  from assms(1) Finish n obtain resp c' where p: "pipeline w (store s) b = Some (resp, c')"
    and s': "s' = \<lparr>store = c', pending = take n (pending s) @ drop (Suc n) (pending s)\<rparr>"
    by (auto simp: server_step_def b_def w_def split: option.splits)
  from pipeline_keeps_entry [OF p ab] assms(2) have "store s' a = Some d"
    by (simp add: s')
  moreover have "set (take n (pending s) @ drop (Suc n) (pending s)) \<subseteq> set (pending s)"
    using set_take_subset [of n "pending s"] set_drop_subset [of "Suc n" "pending s"] by auto
  then have "a \<notin> fst ` set (pending s')"
    using assms(3) by (auto simp: s')
  ultimately show ?thesis by simp
qed

lemma serve_keeps_entry:
  "serve s evs = Some s' \<Longrightarrow> store s a = Some d \<Longrightarrow> a \<notin> fst ` set (pending s) \<Longrightarrow>
     store s' a = Some d"
proof (induction evs arbitrary: s)
  case Nil
  then show ?case by simp
next
  case (Cons ev evs)
  from Cons.prems(1) obtain r s1 where h: "server_step s ev = Some (r, s1)"
    and s: "serve s1 evs = Some s'"
    by (auto split: option.splits)
  from server_step_keeps_entry [OF h Cons.prems(2,3)]
  have "store s1 a = Some d" "a \<notin> fst ` set (pending s1)" by simp_all
  with Cons.IH [OF s] show ?case .
qed

text \<open>
  C7. Requests may overlap. When a request for an asset finishes with a fresh analysis,
  answering \<open>cached: false\<close> with data \<open>d\<close>, and no other request for the same asset is
  pending at that moment, then after any further events (requests for any asset arriving
  and finishing in any order) a request for that asset is answered at once with
  \<open>cached: true\<close> and the same \<open>d\<close>; the server is left as it is and nothing of the
  request's world is consulted: neither download nor analysis runs.
\<close>

theorem second_request_is_cached:
  assumes "server_step s (Finish n) = Some (Some (Ok_json False d), s1)"
    and "fst (pending s ! n) = aid"
    and "aid \<notin> fst ` set (pending s1)"
    and "serve s1 evs = Some s2"
  shows "server_step s2 (Request aid w') = Some (Some (Ok_json True d), s2)"
proof -
  from assms(1) have n: "n < length (pending s)"
    by (auto simp: server_step_def split: if_splits)
  with assms(1,2) obtain c' where "pipeline (snd (pending s ! n)) (store s) aid = Some (Ok_json False d, c')"
    and "store s1 = c'"
    by (auto simp: server_step_def split: option.splits)
  then have "store s1 aid = Some d"
    using pipeline_fresh_stores by blast
  then have "store s2 aid = Some d"
    using assms(3) by (rule serve_keeps_entry [OF assms(4)])
  then show ?thesis by (simp add: server_step_def)
qed

text \<open>
  Asset 123 is requested and analysed; a request for asset 7 arrives and fails while the
  network is down; then asset 123 is requested again and answered from the cache.
\<close>

theorem second_request_is_cached_witness:
  "server_step \<lparr>store = Map.empty, pending = [(''123'', world30)]\<rparr> (Finish 0) =
     Some (Some (Ok_json False result30), \<lparr>store = [''123'' \<mapsto> result30], pending = []\<rparr>) \<and>
   serve \<lparr>store = [''123'' \<mapsto> result30], pending = []\<rparr> [Request ''7'' world_offline, Finish 0] =
     Some \<lparr>store = [''123'' \<mapsto> result30], pending = []\<rparr> \<and>
   server_step \<lparr>store = [''123'' \<mapsto> result30], pending = []\<rparr> (Request ''123'' world_offline) =
     Some (Some (Ok_json True result30), \<lparr>store = [''123'' \<mapsto> result30], pending = []\<rparr>)"
proof -
  have 1: "server_step \<lparr>store = Map.empty, pending = [(''123'', world30)]\<rparr> (Finish 0) =
     Some (Some (Ok_json False result30), \<lparr>store = [''123'' \<mapsto> result30], pending = []\<rparr>)"
    by (simp add: server_step_def pipeline_world30)
  have 2: "serve \<lparr>store = [''123'' \<mapsto> result30], pending = []\<rparr> [Request ''7'' world_offline, Finish 0] =
     Some \<lparr>store = [''123'' \<mapsto> result30], pending = []\<rparr>"
    by (simp add: server_step_def pipeline_def downloadRobloxAudio_def world_offline_def world30_def)
  from second_request_is_cached [OF 1 _ _ 2, of "''123''" world_offline] 1 2
  show ?thesis by simp
qed

section \<open>A failing clean-up\<close>

text \<open>
  C10. When the asset is not cached, download and analysis succeed and deleting the temp
  file throws, the handler answers with status 500 and \<open>success: false\<close>, yet the
  result is in the cache: every later request for the asset answers \<open>cached: true\<close>
  with it. Storing in the cache and sending the success response are not one step.
\<close>

theorem cache_kept_when_cleanup_fails:
  assumes "c aid = None" and "downloadRobloxAudio w aid = Inr audioPath"
    and "analyzeAudio (sampler w) audioPath = Some (Inr d)"
    and "unlinkSync w = Some err"
  shows "\<exists>resp c'. analyze_handler w c aid = Some (resp, c') \<and> status resp = 500 \<and>
           \<not> success resp \<and> c' aid = Some d \<and>
           (\<forall>w'. analyze_handler w' c' aid = Some (Ok_json True d, c'))"
  using assms by (simp add: analyze_handler_def pipeline_def Let_def)

text \<open>The request for asset 123 whose temp file is already gone.\<close>

theorem cache_kept_when_cleanup_fails_witness:
  "\<exists>resp c'. analyze_handler world_unlink_fails Map.empty ''123'' = Some (resp, c') \<and> status resp = 500 \<and>
           \<not> success resp \<and> c' ''123'' = Some result30 \<and>
           (\<forall>w'. analyze_handler w' c' ''123'' = Some (Ok_json True result30, c'))"
  using cache_kept_when_cleanup_fails [of Map.empty "''123''" world_unlink_fails "''/app/temp/123.mp3''"
      result30 "Error ''ENOENT: no such file or directory''"]
  by (simp add: world_unlink_fails_def world30_def downloadRobloxAudio_def tempPath_def
      analyzeAudio_env30 basename_def result30_def)

end
